theory Spec2Isabelle
  imports Complex_Main "HOL-Library.Sublist"
begin

section \<open>Strings as Python uses them\<close>

text \<open>
  Text is held as UTF-8 bytes. Python's \<^verbatim>\<open>str.lower()\<close> maps the letters A to Z to a to z;
  here every other byte is kept. Python lower-cases two characters outside ASCII to text
  with an ASCII letter in it (the Kelvin sign to k, the capital I with dot to i followed by
  a combining dot); the words this program compares lower-cased text with have no k and do
  not end in i, so keeping these two characters changes no result.
\<close>

definition lower_char :: "char \<Rightarrow> char" where
  "lower_char c =
     (case map_of (zip ''ABCDEFGHIJKLMNOPQRSTUVWXYZ'' ''abcdefghijklmnopqrstuvwxyz'') c of
        None \<Rightarrow> c
      | Some l \<Rightarrow> l)"

definition lower :: "string \<Rightarrow> string" where
  "lower s = map lower_char s"

text \<open>
  \<^verbatim>\<open>s.startswith(p)\<close>; the substring test \<^verbatim>\<open>p in s\<close>, as \<open>str_contains p s\<close>; and
  \<^verbatim>\<open>s.endswith(e)\<close>.
\<close>

fun startswith :: "string \<Rightarrow> string \<Rightarrow> bool" where
  "startswith s [] = True"
| "startswith [] (p # ps) = False"
| "startswith (c # cs) (p # ps) = (c = p \<and> startswith cs ps)"

fun str_contains :: "string \<Rightarrow> string \<Rightarrow> bool" where
  "str_contains p [] = (p = [])"
| "str_contains p (c # cs) = (startswith (c # cs) p \<or> str_contains p cs)"

definition endswith :: "string \<Rightarrow> string \<Rightarrow> bool" where
  "endswith s e = (length e \<le> length s \<and> drop (length s - length e) s = e)"

section \<open>error\_handler.py\<close>

text \<open>
  The exception classes the program tells apart. \<open>RedditAPIException\<close> and
  \<open>ClientException\<close> derive from \<open>praw.exceptions.PRAWException\<close>;
  \<open>RequestException\<close> and \<open>ResponseException\<close> derive from
  \<open>prawcore.exceptions.PrawcoreException\<close>; the last three are the program's own
  \<open>RedditExtractorError\<close> subclasses; \<open>OtherException\<close> is any other
  \<open>Exception\<close>.
\<close>

datatype exc_class =
    PRAWException
  | RedditAPIException
  | ClientException
  | PrawcoreException
  | RequestException
  | ResponseException
  | APIAuthenticationError
  | PostRetrievalError
  | CommentRetrievalError
  | OtherException

text \<open>
  An exception value: its class, the status code of its \<^verbatim>\<open>response\<close> attribute
  (\<open>None\<close> when the attribute is missing or is \<^verbatim>\<open>None\<close>), \<^verbatim>\<open>str(e)\<close>, and
  \<^verbatim>\<open>__cause__\<close> as set by \<^verbatim>\<open>raise ... from e\<close>.
\<close>

datatype exn = Exn (exc_cls: exc_class) (status_code: "int option") (str_of: string)
  (cause: "exn option")

text \<open>\<^verbatim>\<open>isinstance(e, praw.exceptions.PRAWException)\<close>\<close>

fun isinstance_PRAWException :: "exn \<Rightarrow> bool" where
  "isinstance_PRAWException e = (exc_cls e \<in> {PRAWException, RedditAPIException, ClientException})"

text \<open>
  \<^verbatim>\<open>isinstance(error, (RequestException, ResponseException, PrawcoreException,
  RedditAPIException))\<close>
\<close>

fun isinstance_api_types :: "exn \<Rightarrow> bool" where
  "isinstance_api_types e =
     (exc_cls e \<in> {RequestException, ResponseException, PrawcoreException, RedditAPIException})"

definition retryable_phrases :: "string list" where
  "retryable_phrases =
     [''rate limit'', ''ratelimit'',
      ''timeout'', ''time-out'', ''timed out'',
      ''connection failed'', ''connection reset'', ''connection refused'', ''connection error'',
      ''temporary'', ''transient'',
      ''500'', ''502'', ''503'', ''504'',
      ''server error'', ''internal server error'',
      ''service unavailable'',
      ''please try again later'']"

text \<open>
  \<open>is_retryable_error\<close>. The imports of praw and prawcore succeed (data\_retriever.py
  imports praw at module level), so the \<^verbatim>\<open>except ImportError\<close> branch is not taken.
\<close>

definition is_retryable_error :: "exn \<Rightarrow> bool" where
  "is_retryable_error error =
     (if isinstance_api_types error \<and>
         (case status_code error of
            None \<Rightarrow> False
          | Some sc \<Rightarrow> sc = 429 \<or> sc \<in> set [500, 502, 503, 504])
      then True
      else (let error_str = lower (str_of error)
            in list_ex (\<lambda>phrase. str_contains phrase error_str) retryable_phrases))"





section \<open>data\_retriever.py: the retry decorator\<close>

record policy =
  max_retries :: int
  base_delay :: real
  max_delay :: real

definition default_policy :: policy where
  "default_policy = \<lparr>max_retries = 3, base_delay = 2, max_delay = 30\<rparr>"

text \<open>
  What one call of the wrapper did: the value returned or the exception raised, how many
  times the wrapped function was called, and the delays passed to \<^verbatim>\<open>time.sleep\<close>.
\<close>

record 'a run =
  outcome :: "exn + 'a"
  attempts :: nat
  slept :: "real list"

text \<open>
  The raise statements of the \<^verbatim>\<open>except\<close> block once the wrapper gives up on \<open>e\<close>;
  \<open>fname\<close> is \<^verbatim>\<open>func.__name__\<close>.
\<close>

definition give_up :: "string \<Rightarrow> exn \<Rightarrow> exn" where
  "give_up fname e =
     (if isinstance_PRAWException e then
        (if str_contains ''401'' (str_of e) \<or> str_contains ''403'' (str_of e) then
           Exn APIAuthenticationError None
             (''Authentication failed during '' @ fname @ '': '' @ str_of e) (Some e)
         else if fname = ''fetch_post_data'' then
           Exn PostRetrievalError None (''API error in '' @ fname @ '': '' @ str_of e) (Some e)
         else if fname = ''fetch_comments_data'' then
           Exn CommentRetrievalError None (''API error in '' @ fname @ '': '' @ str_of e) (Some e)
         else e)
      else e)"

text \<open>
  The \<^verbatim>\<open>while True\<close> loop of \<open>wrapper\<close>. \<open>func n\<close> is what the \<open>n\<close>-th call
  (counted from 0) of the wrapped function does: \<open>Inr v\<close> returns \<open>v\<close>, \<open>Inl e\<close> raises
  \<open>e\<close>. \<open>rnd n\<close> is the draw of \<^verbatim>\<open>random.random()\<close> behind the \<open>n\<close>-th
  \<^verbatim>\<open>random.uniform(0, current_delay * 0.1)\<close>. Python's floats are taken as reals.
\<close>

function wrapper_loop ::
  "string \<Rightarrow> policy \<Rightarrow> (nat \<Rightarrow> real) \<Rightarrow> (nat \<Rightarrow> exn + 'a) \<Rightarrow> nat \<Rightarrow> real \<Rightarrow> real list \<Rightarrow> 'a run"
where
  "wrapper_loop fname pol rnd func retries current_delay sl =
     (case func retries of
        Inr v \<Rightarrow> \<lparr>outcome = Inr v, attempts = retries + 1, slept = sl\<rparr>
      | Inl e \<Rightarrow>
          if int retries \<ge> max_retries pol \<or> \<not> is_retryable_error e then
            \<lparr>outcome = Inl (give_up fname e), attempts = retries + 1, slept = sl\<rparr>
          else
            (let jitter = rnd retries * (current_delay * (1 / 10));
                 actual_delay = min (current_delay + jitter) (max_delay pol)
             in wrapper_loop fname pol rnd func (retries + 1)
                  (min (current_delay * 2) (max_delay pol)) (sl @ [actual_delay])))"
  by pat_completeness auto
termination
  by (relation "measure (\<lambda>(fname, pol, rnd, func, retries, cd, sl). nat (max_retries pol - int retries))")
     auto

definition retry_with_backoff ::
  "policy \<Rightarrow> string \<Rightarrow> (nat \<Rightarrow> real) \<Rightarrow> (nat \<Rightarrow> exn + 'a) \<Rightarrow> 'a run" where
  "retry_with_backoff pol fname rnd func = wrapper_loop fname pol rnd func 0 (base_delay pol) []"

section \<open>data\_retriever.py: the comment tree\<close>

text \<open>
  What the remote source hands over. A \<open>Comment\<close> carries its attributes; \<open>author\<close> is
  \<open>None\<close> for Python's \<^verbatim>\<open>None\<close>, \<open>body\<close> and \<open>replies\<close> are \<open>None\<close> when the
  object has no such attribute. A reply collection is the sequence of what expanding and
  iterating it does: \<open>Inr c\<close> yields the object \<open>c\<close>, \<open>Inl e\<close> raises \<open>e\<close> at that
  point (a failing \<^verbatim>\<open>replace_more\<close> is an \<open>Inl\<close> in first position).
  \<open>MoreComments\<close> is the load-more placeholder; it has an id and no body.
\<close>

datatype raw_comment =
    Comment (rid: string) (author: "string option") (body: "string option")
      (created_utc: real) (score: int) (is_submitter: bool) (stickied: bool)
      (parent_id: string) (permalink: string)
      (replies: "(exn + raw_comment) list option")
  | MoreComments string

text \<open>The dictionary \<open>comment_data_to_return\<close>, one field per key.\<close>

datatype comment_data =
  CommentData (c_id: string) (c_author: string) (c_body: string) (c_created_utc: real)
    (c_score: int) (c_is_submitter: bool) (c_stickied: bool) (c_parent_id: string)
    (c_permalink: string) (c_depth: int) (c_replies: "comment_data list")

text \<open>
  \<open>_process_comment\<close>, with the \<^verbatim>\<open>for\<close> loop over the replies as
  \<open>process_replies\<close>: its last argument is the \<open>replies\<close> list built so far, and an
  exception leaves the loop with that list, as the \<^verbatim>\<open>except Exception\<close> does.
  The author was tested against \<^verbatim>\<open>None\<close> before the dictionary is built, so
  \<^verbatim>\<open>comment.author.name if comment.author else '[deleted]'\<close> is the name. In the last
  branch the dictionary is written out again with its \<open>replies\<close> filled.
\<close>

function (sequential) process_comment :: "raw_comment \<Rightarrow> int \<Rightarrow> int option \<Rightarrow> comment_data option"
  and process_replies ::
    "(exn + raw_comment) list \<Rightarrow> int \<Rightarrow> int option \<Rightarrow> comment_data list \<Rightarrow> comment_data list"
where
  "process_comment (MoreComments i) depth max_depth = None"
| "process_comment (Comment i au bo cr sc sub st par perm reps) depth max_depth =
     (case bo of
        None \<Rightarrow> None
      | Some b \<Rightarrow>
          (case au of
             None \<Rightarrow> None
           | Some name \<Rightarrow>
               (let comment_data_to_return =
                      CommentData i name b cr sc sub st par (''https://www.reddit.com'' @ perm)
                        depth []
                in if (case max_depth of None \<Rightarrow> False | Some m \<Rightarrow> depth \<ge> m)
                   then Some comment_data_to_return
                   else
                     (case reps of
                        None \<Rightarrow> Some comment_data_to_return
                      | Some rs \<Rightarrow>
                          Some (CommentData i name b cr sc sub st par
                                  (''https://www.reddit.com'' @ perm) depth
                                  (process_replies rs depth max_depth []))))))"
| "process_replies [] depth max_depth acc = acc"
| "process_replies (Inl e # rest) depth max_depth acc = acc"
| "process_replies (Inr reply_praw_object # rest) depth max_depth acc =
     (case process_comment reply_praw_object (depth + 1) max_depth of
        None \<Rightarrow> process_replies rest depth max_depth acc
      | Some processed_reply_data \<Rightarrow>
          process_replies rest depth max_depth (acc @ [processed_reply_data]))"
  by pat_completeness auto
termination
  by (relation "measure (\<lambda>x. case x of
         Inl (c, depth, max_depth) \<Rightarrow> size c
       | Inr (rs, depth, max_depth, acc) \<Rightarrow> size_list (size_sum (\<lambda>e. 0) size) rs)")
     auto

text \<open>
  The submission as \<open>fetch_comments_data\<close> uses it: its id, and the top-level comment
  collection the source delivers for the \<open>comment_sort\<close> and \<open>comment_limit\<close> set on it.
\<close>

record submission_comments =
  sub_id :: string
  comments :: "string \<Rightarrow> int \<Rightarrow> (exn + raw_comment) list"

text \<open>
  The loop over \<^verbatim>\<open>submission.comments\<close>. The iterator is advanced before the count is
  tested, so an exception of the iteration is raised even when enough comments are there.
\<close>

fun top_level_loop ::
  "(exn + raw_comment) list \<Rightarrow> int \<Rightarrow> int option \<Rightarrow> comment_data list \<Rightarrow> int
     \<Rightarrow> exn + comment_data list"
where
  "top_level_loop [] num_comments comment_depth comments_data_list cnt = Inr comments_data_list"
| "top_level_loop (Inl e # rest) num_comments comment_depth comments_data_list cnt = Inl e"
| "top_level_loop (Inr top_level_comment # rest) num_comments comment_depth comments_data_list cnt =
     (if cnt \<ge> num_comments then Inr comments_data_list
      else
        (case top_level_comment of
           Comment i au bo cr sc sub st par perm reps \<Rightarrow>
             (case process_comment top_level_comment 0 comment_depth of
                Some comment_data \<Rightarrow>
                  top_level_loop rest num_comments comment_depth
                    (comments_data_list @ [comment_data]) (cnt + 1)
              | None \<Rightarrow> top_level_loop rest num_comments comment_depth comments_data_list cnt)
         | MoreComments i \<Rightarrow>
             top_level_loop rest num_comments comment_depth comments_data_list cnt))"

text \<open>The slice \<^verbatim>\<open>xs[:n]\<close>; a negative \<open>n\<close> counts from the end.\<close>

definition slice_to :: "'a list \<Rightarrow> int \<Rightarrow> 'a list" where
  "slice_to xs n = (if n \<ge> 0 then take (nat n) xs else take (length xs - nat (- n)) xs)"

text \<open>
  \<^verbatim>\<open>xs.sort(key=lambda c: c.get('score', 0), reverse=True)\<close>: a stable sort by
  descending score.
\<close>

definition sort_by_score_desc :: "comment_data list \<Rightarrow> comment_data list" where
  "sort_by_score_desc xs = sort_key (\<lambda>c. - c_score c) xs"

definition valid_praw_sorts :: "string list" where
  "valid_praw_sorts = [''best'', ''top'', ''new'', ''controversial'', ''old'', ''q&a'']"

text \<open>The two \<^verbatim>\<open>except\<close> clauses of \<open>fetch_comments_data\<close>.\<close>

definition comments_error :: "string \<Rightarrow> exn \<Rightarrow> exn" where
  "comments_error sid e =
     (if isinstance_PRAWException e then
        (if str_contains ''401'' (str_of e) \<or> str_contains ''403'' (str_of e) then
           Exn APIAuthenticationError None
             (''Authentication error fetching comments for post '' @ sid @ ''.'') (Some e)
         else if str_contains ''404'' (str_of e) \<or> str_contains ''not found'' (lower (str_of e)) then
           Exn CommentRetrievalError None
             (''Post '' @ sid @ '' comments not found or post became inaccessible (404).'') (Some e)
         else
           Exn CommentRetrievalError None
             (''Failed to fetch comments for post '' @ sid @ '' due to API error: '' @ str_of e)
             (Some e))
      else
        Exn CommentRetrievalError None
          (''An unexpected error occurred while fetching comments for post '' @ sid @ '': ''
             @ str_of e) (Some e))"

text \<open>
  The sort order handed to PRAW, and the \<open>comment_limit\<close> set on the submission:
  \<^verbatim>\<open>num_comments * 2 if num_comments else 20\<close>.
\<close>

definition actual_praw_sort :: "string \<Rightarrow> string" where
  "actual_praw_sort sort_order =
     (let actual_praw_sort = lower sort_order;
          actual_praw_sort = (if actual_praw_sort = ''score'' then ''top'' else actual_praw_sort)
      in if actual_praw_sort \<notin> set valid_praw_sorts then ''best'' else actual_praw_sort)"

definition comment_limit :: "int \<Rightarrow> int" where
  "comment_limit num_comments = (if num_comments \<noteq> 0 then num_comments * 2 else 20)"

text \<open>\<open>fetch_comments_data\<close>, the function under the decorator.\<close>

definition fetch_comments_data ::
  "submission_comments \<Rightarrow> string \<Rightarrow> int \<Rightarrow> int option \<Rightarrow> exn + comment_data list" where
  "fetch_comments_data submission sort_order num_comments comment_depth =
     (case top_level_loop
             (comments submission (actual_praw_sort sort_order) (comment_limit num_comments))
             num_comments comment_depth [] 0 of
        Inl e \<Rightarrow> Inl (comments_error (sub_id submission) e)
      | Inr comments_data_list \<Rightarrow>
          (if lower sort_order = ''score'' then
             Inr (slice_to
                    (if actual_praw_sort sort_order \<noteq> ''top''
                     then sort_by_score_desc comments_data_list
                     else comments_data_list)
                    num_comments)
           else Inr comments_data_list))"

section \<open>data\_retriever.py: media classification\<close>

text \<open>
  The attachment metadata is JSON as PRAW delivers it. A dictionary is the list of its
  items in order, with distinct keys.
\<close>

datatype json =
    JNone
  | JBool bool
  | JNum int
  | JStr string
  | JList "json list"
  | JDict "(string \<times> json) list"

datatype py_error = AttributeError | KeyError | TypeError | IndexError

text \<open>Truth value of an object in a condition.\<close>

fun truthy :: "json \<Rightarrow> bool" where
  "truthy JNone = False"
| "truthy (JBool b) = b"
| "truthy (JNum n) = (n \<noteq> 0)"
| "truthy (JStr s) = (s \<noteq> [])"
| "truthy (JList xs) = (xs \<noteq> [])"
| "truthy (JDict kvs) = (kvs \<noteq> [])"

text \<open>\<^verbatim>\<open>x.get(k, default)\<close>: only a dictionary has the method.\<close>

fun py_get :: "json \<Rightarrow> string \<Rightarrow> json \<Rightarrow> py_error + json" where
  "py_get (JDict kvs) k dflt = Inr (case map_of kvs k of None \<Rightarrow> dflt | Some v \<Rightarrow> v)"
| "py_get x k dflt = Inl AttributeError"

text \<open>\<^verbatim>\<open>x['k']\<close> with a string key.\<close>

fun getitem :: "json \<Rightarrow> string \<Rightarrow> py_error + json" where
  "getitem (JDict kvs) k = (case map_of kvs k of None \<Rightarrow> Inl KeyError | Some v \<Rightarrow> Inr v)"
| "getitem x k = Inl TypeError"

text \<open>\<^verbatim>\<open>x[0]\<close>; the keys of a JSON dictionary are strings, so \<open>0\<close> is never one.\<close>

fun getitem0 :: "json \<Rightarrow> py_error + json" where
  "getitem0 (JList []) = Inl IndexError"
| "getitem0 (JList (v # vs)) = Inr v"
| "getitem0 (JStr []) = Inl IndexError"
| "getitem0 (JStr (c # cs)) = Inr (JStr [c])"
| "getitem0 (JDict kvs) = Inl KeyError"
| "getitem0 x = Inl TypeError"

text \<open>\<^verbatim>\<open>'k' in x\<close>\<close>

fun py_in :: "string \<Rightarrow> json \<Rightarrow> py_error + bool" where
  "py_in k (JDict kvs) = Inr (map_of kvs k \<noteq> None)"
| "py_in k (JList xs) = Inr (JStr k \<in> set xs)"
| "py_in k (JStr s) = Inr (str_contains k s)"
| "py_in k x = Inl TypeError"

text \<open>\<^verbatim>\<open>x.items()\<close>\<close>

fun py_items :: "json \<Rightarrow> py_error + (string \<times> json) list" where
  "py_items (JDict kvs) = Inr kvs"
| "py_items x = Inl AttributeError"

text \<open>Sequencing of steps that may raise, and the short-circuit \<^verbatim>\<open>and\<close>.\<close>

definition bindE :: "py_error + 'a \<Rightarrow> ('a \<Rightarrow> py_error + 'b) \<Rightarrow> py_error + 'b" where
  "bindE r k = (case r of Inl e \<Rightarrow> Inl e | Inr v \<Rightarrow> k v)"

definition and_also :: "py_error + bool \<Rightarrow> py_error + bool \<Rightarrow> py_error + bool" where
  "and_also a b = (case a of Inl e \<Rightarrow> Inl e | Inr False \<Rightarrow> Inr False | Inr True \<Rightarrow> b)"

text \<open>
  A dictionary display whose values are \<^verbatim>\<open>obj.get(k)\<close>, evaluated in order: one pair
  (key of the new dictionary, key looked up in \<open>obj\<close>) per entry.
\<close>

fun dict_of_gets :: "json \<Rightarrow> (string \<times> string) list \<Rightarrow> py_error + (string \<times> json) list" where
  "dict_of_gets obj [] = Inr []"
| "dict_of_gets obj ((k, k') # ks) =
     bindE (py_get obj k' JNone) (\<lambda>v. bindE (dict_of_gets obj ks) (\<lambda>d. Inr ((k, v) # d)))"

text \<open>
  The submission as \<open>extract_media_info\<close> reads it. The attributes tested with
  \<^verbatim>\<open>hasattr\<close> are optional (\<open>None\<close>: no such attribute); \<open>is_gallery\<close> is one of them,
  PRAW sets it on gallery posts only.
\<close>

record submission =
  is_gallery :: "json option"
  media_metadata :: "json option"
  is_video :: bool
  media :: "json option"
  preview :: "json option"
  domain :: string
  is_self :: bool
  url :: string
  secure_media :: "json option"

type_synonym media_item = "(string \<times> json) list"

definition image_extensions :: "string list" where
  "image_extensions = [''.jpg'', ''.jpeg'', ''.png'', ''.gif'']"

text \<open>\<^verbatim>\<open>any(submission.url.lower().endswith(ext) for ext in image_extensions)\<close>\<close>

definition url_has_image_extension :: "submission \<Rightarrow> bool" where
  "url_has_image_extension s = list_ex (\<lambda>ext. endswith (lower (url s)) ext) image_extensions"

text \<open>
  How far the body of the \<^verbatim>\<open>try\<close> got, with \<open>structured_media\<close> as it is then:
  an exception was raised, a \<^verbatim>\<open>return\<close> was reached, or control goes on to the next
  rule.
\<close>

datatype flow =
    Raised py_error "media_item list"
  | Return "media_item list"
  | Next "media_item list"

definition and_then :: "flow \<Rightarrow> (media_item list \<Rightarrow> flow) \<Rightarrow> flow" where
  "and_then f k = (case f of Next sm \<Rightarrow> k sm | Return sm \<Rightarrow> Return sm | Raised e sm \<Rightarrow> Raised e sm)"

definition attempt :: "media_item list \<Rightarrow> py_error + 'a \<Rightarrow> ('a \<Rightarrow> flow) \<Rightarrow> flow" where
  "attempt sm r k = (case r of Inl e \<Rightarrow> Raised e sm | Inr v \<Rightarrow> k v)"

subsection \<open>Rule 1: galleries\<close>

text \<open>The condition of the first \<^verbatim>\<open>if\<close>; when it holds, the metadata it found.\<close>

definition gallery_metadata :: "submission \<Rightarrow> json option" where
  "gallery_metadata s =
     (case is_gallery s of
        None \<Rightarrow> None
      | Some g \<Rightarrow>
          if \<not> truthy g then None
          else (case media_metadata s of
                  None \<Rightarrow> None
                | Some mm \<Rightarrow> if truthy mm then Some mm else None))"

text \<open>One round of the loop over \<^verbatim>\<open>media_metadata.items()\<close>: the item appended, if any.\<close>

definition gallery_item :: "string \<Rightarrow> json \<Rightarrow> py_error + media_item option" where
  "gallery_item media_id item =
     bindE (and_also (bindE (py_get item ''e'' JNone) (\<lambda>e. Inr (e = JStr ''Image'')))
                     (bindE (py_get item ''s'' JNone) (\<lambda>v. Inr (truthy v))))
       (\<lambda>is_image.
          if is_image then
            bindE (getitem item ''s'') (\<lambda>s1. bindE (py_get s1 ''u'' JNone) (\<lambda>u.
            bindE (getitem item ''s'') (\<lambda>s2. bindE (py_get s2 ''x'' JNone) (\<lambda>x.
            bindE (getitem item ''s'') (\<lambda>s3. bindE (py_get s3 ''y'' JNone) (\<lambda>y.
            bindE (py_get item ''m'' JNone) (\<lambda>m.
              Inr (Some [(''type'', JStr ''image_gallery_item''), (''id'', JStr media_id),
                         (''url'', u), (''width'', x), (''height'', y), (''mimetype'', m)]))))))))
          else
            bindE (and_also (bindE (py_get item ''e'' JNone) (\<lambda>e. Inr (e = JStr ''Video'')))
                            (bindE (py_get item ''s'' JNone) (\<lambda>v. Inr (truthy v))))
              (\<lambda>is_animated.
                 if is_animated then
                   bindE (getitem item ''s'') (\<lambda>s1.
                   bindE (getitem item ''s'') (\<lambda>s1'. bindE (py_get s1' ''gif'' JNone) (\<lambda>gif.
                   bindE (py_get s1 ''mp4'' gif) (\<lambda>u.
                   bindE (getitem item ''s'') (\<lambda>s2. bindE (py_get s2 ''x'' JNone) (\<lambda>x.
                   bindE (getitem item ''s'') (\<lambda>s3. bindE (py_get s3 ''y'' JNone) (\<lambda>y.
                   bindE (py_get item ''m'' JNone) (\<lambda>m.
                     Inr (Some [(''type'', JStr ''animated_gallery_item''), (''id'', JStr media_id),
                                (''url'', u), (''width'', x), (''height'', y),
                                (''mimetype'', m)]))))))))))
                 else Inr None))"

fun gallery_loop :: "(string \<times> json) list \<Rightarrow> media_item list \<Rightarrow> flow" where
  "gallery_loop [] sm = Next sm"
| "gallery_loop ((media_id, item) # rest) sm =
     attempt sm (gallery_item media_id item)
       (\<lambda>r. case r of None \<Rightarrow> gallery_loop rest sm | Some m \<Rightarrow> gallery_loop rest (sm @ [m]))"

definition rule_gallery :: "json \<Rightarrow> media_item list \<Rightarrow> flow" where
  "rule_gallery mm sm =
     attempt sm (py_items mm)
       (\<lambda>items. and_then (gallery_loop items sm) (\<lambda>sm'. if sm' \<noteq> [] then Return sm' else Next sm'))"

subsection \<open>Rule 2: native video\<close>

text \<open>The condition of the first \<^verbatim>\<open>elif\<close>; when it holds, \<^verbatim>\<open>submission.media\<close>.\<close>

definition video_media :: "submission \<Rightarrow> py_error + json option" where
  "video_media s =
     (if \<not> is_video s then Inr None
      else (case media s of
              None \<Rightarrow> Inr None
            | Some m \<Rightarrow>
                if \<not> truthy m then Inr None
                else bindE (py_in ''reddit_video'' m) (\<lambda>b. Inr (if b then Some m else None))))"

definition rule_video :: "json \<Rightarrow> media_item list \<Rightarrow> flow" where
  "rule_video m sm =
     attempt sm
       (bindE (getitem m ''reddit_video'') (\<lambda>reddit_video.
        bindE (dict_of_gets reddit_video
                 [(''url'', ''fallback_url''), (''hls_url'', ''hls_url''), (''dash_url'', ''dash_url''),
                  (''duration_seconds'', ''duration''), (''width'', ''width''),
                  (''height'', ''height''), (''is_gif'', ''is_gif''),
                  (''transcoding_status'', ''transcoding_status'')])
          (\<lambda>d. Inr ((''type'', JStr ''reddit_video'') # d))))
       (\<lambda>item. Return (sm @ [item]))"

subsection \<open>Rule 3: direct image, link with preview\<close>

text \<open>The condition of the second \<^verbatim>\<open>elif\<close>; when it holds, \<^verbatim>\<open>submission.preview\<close>.\<close>

definition preview_images :: "submission \<Rightarrow> py_error + json option" where
  "preview_images s =
     (case preview s of
        None \<Rightarrow> Inr None
      | Some p \<Rightarrow>
          if \<not> truthy p then Inr None
          else bindE (py_in ''images'' p) (\<lambda>b.
                 if \<not> b then Inr None
                 else bindE (getitem p ''images'') (\<lambda>imgs.
                        Inr (if truthy imgs then Some p else None))))"

text \<open>\<^verbatim>\<open>submission.preview['images'][0]['source']\<close>\<close>

definition source_image :: "json \<Rightarrow> py_error + json" where
  "source_image p =
     bindE (getitem p ''images'') (\<lambda>imgs. bindE (getitem0 imgs) (\<lambda>img. getitem img ''source''))"

definition rule_preview :: "submission \<Rightarrow> json \<Rightarrow> media_item list \<Rightarrow> flow" where
  "rule_preview s p sm =
     (if domain s \<in> set [''i.redd.it'', ''i.imgur.com''] then
        attempt sm
          (bindE (source_image p) (\<lambda>src.
           bindE (dict_of_gets src [(''width'', ''width''), (''height'', ''height'')])
             (\<lambda>d. Inr ([(''type'', JStr ''image''), (''url'', JStr (url s))] @ d))))
          (\<lambda>item. Return (sm @ [item]))
      else if \<not> is_self s \<and> url s \<noteq> [] \<and> \<not> is_video s then
        (if url_has_image_extension s \<and> \<not> domain s = ''v.redd.it'' then
           attempt sm
             (bindE (source_image p) (\<lambda>src.
              bindE (dict_of_gets src
                       [(''width'', ''width''), (''height'', ''height''), (''preview_url'', ''url'')])
                (\<lambda>d. Inr ([(''type'', JStr ''image_link''), (''url'', JStr (url s))] @ d))))
             (\<lambda>item. Next (sm @ [item]))
         else Next sm)
      else Next sm)"

text \<open>The \<^verbatim>\<open>if\<close> / \<^verbatim>\<open>elif\<close> / \<^verbatim>\<open>elif\<close> chain of rules 1 to 3.\<close>

definition rules_1_to_3 :: "submission \<Rightarrow> media_item list \<Rightarrow> flow" where
  "rules_1_to_3 s sm =
     (case gallery_metadata s of
        Some mm \<Rightarrow> rule_gallery mm sm
      | None \<Rightarrow>
          attempt sm (video_media s)
            (\<lambda>v. case v of
                   Some m \<Rightarrow> rule_video m sm
                 | None \<Rightarrow>
                     attempt sm (preview_images s)
                       (\<lambda>pv. case pv of Some p \<Rightarrow> rule_preview s p sm | None \<Rightarrow> Next sm)))"

subsection \<open>Rule 4: embedded media\<close>

definition oembed_of :: "submission \<Rightarrow> py_error + json option" where
  "oembed_of s =
     (case secure_media s of
        None \<Rightarrow> Inr None
      | Some m \<Rightarrow>
          if \<not> truthy m then Inr None
          else bindE (py_in ''oembed'' m) (\<lambda>b.
                 if \<not> b then Inr None else bindE (getitem m ''oembed'') (\<lambda>oembed. Inr (Some oembed))))"

definition rule_embed :: "submission \<Rightarrow> media_item list \<Rightarrow> flow" where
  "rule_embed s sm =
     attempt sm (oembed_of s)
       (\<lambda>ob. case ob of
               None \<Rightarrow> Next sm
             | Some oembed \<Rightarrow>
                 attempt sm
                   (and_also (bindE (py_get oembed ''type'' JNone) (\<lambda>t. Inr (t = JStr ''video'')))
                             (bindE (py_get oembed ''provider_name'' JNone)
                                (\<lambda>pn. Inr (pn = JStr ''YouTube''))))
                   (\<lambda>is_youtube.
                      if is_youtube then
                        attempt sm
                          (bindE (dict_of_gets oembed
                                    [(''url'', ''url''), (''html_embed'', ''html''),
                                     (''thumbnail_url'', ''thumbnail_url''), (''title'', ''title''),
                                     (''author_name'', ''author_name''),
                                     (''provider_name'', ''provider_name'')])
                             (\<lambda>d. Inr ((''type'', JStr ''youtube_video_embed'') # d)))
                          (\<lambda>item. Return (sm @ [item]))
                      else Next sm))"

subsection \<open>Rule 5: external image link\<close>

text \<open>
  \<^verbatim>\<open>submission.is_gallery\<close> is read here without \<^verbatim>\<open>hasattr\<close>: on a submission that
  has no such attribute it raises.
\<close>

definition rule_fallback :: "submission \<Rightarrow> media_item list \<Rightarrow> flow" where
  "rule_fallback s sm =
     (if sm = [] \<and> \<not> is_self s \<and> \<not> is_video s then
        (case is_gallery s of
           None \<Rightarrow> Raised AttributeError sm
         | Some g \<Rightarrow>
             if \<not> truthy g then
               (if url_has_image_extension s \<and> \<not> domain s \<in> set [''i.redd.it'', ''v.redd.it''] then
                  Next (sm @ [[(''type'', JStr ''external_image_link''), (''url'', JStr (url s))]])
                else Next sm)
             else Next sm)
      else Next sm)"

subsection \<open>\<open>extract_media_info\<close>\<close>

definition extract_media_steps :: "submission \<Rightarrow> flow" where
  "extract_media_steps s = and_then (and_then (rules_1_to_3 s []) (rule_embed s)) (rule_fallback s)"

text \<open>
  Whatever way the body of the \<^verbatim>\<open>try\<close> is left, by \<^verbatim>\<open>return structured_media\<close>, by an
  exception or at its end, the caller gets the list \<open>structured_media\<close> as it is then.
\<close>

definition extract_media_info :: "submission \<Rightarrow> media_item list" where
  "extract_media_info s =
     (case extract_media_steps s of Raised e sm \<Rightarrow> sm | Return sm \<Rightarrow> sm | Next sm \<Rightarrow> sm)"

section \<open>Concrete inputs\<close>


definition exn_503 :: exn where
  "exn_503 = Exn ResponseException (Some 503) ''received 503 HTTP response'' None"

definition exn_ratelimit :: exn where
  "exn_ratelimit = Exn RedditAPIException None ''RATELIMIT: you are doing that too much'' None"

definition always_503 :: "nat \<Rightarrow> exn + unit" where
  "always_503 n = Inl exn_503"

definition always_ratelimit :: "nat \<Rightarrow> exn + unit" where
  "always_ratelimit n = Inl exn_ratelimit"

definition no_jitter :: "nat \<Rightarrow> real" where
  "no_jitter n = 0"

section \<open>Notions used to state the properties of the comment tree\<close>

text \<open>
  A source object that \<open>_process_comment\<close> is to keep: a comment that has a body and whose
  author is not \<^verbatim>\<open>None\<close>. Placeholders and deleted or removed comments are not.
\<close>

fun valid_raw :: "raw_comment \<Rightarrow> bool" where
  "valid_raw (MoreComments i) = False"
| "valid_raw (Comment i au bo cr sc sub st par perm reps) = (au \<noteq> None \<and> bo \<noteq> None)"

text \<open>The objects a collection yields, leaving out the points where it raises.\<close>

fun yielded :: "(exn + raw_comment) list \<Rightarrow> raw_comment list" where
  "yielded [] = []"
| "yielded (Inl e # evs) = yielded evs"
| "yielded (Inr c # evs) = c # yielded evs"

text \<open>
  A node of the returned tree stems from a source object when that object is a comment
  whose id, author and body are the node's, and every child of the node stems from an
  object among the comment's replies.
\<close>

fun stems_from :: "comment_data \<Rightarrow> raw_comment \<Rightarrow> bool" where
  "stems_from (CommentData i a b cr sc sub st par perm d kids) (MoreComments j) = False"
| "stems_from (CommentData i a b cr sc sub st par perm d kids)
              (Comment i' au bo cr' sc' sub' st' par' perm' reps) =
     (i' = i \<and> au = Some a \<and> bo = Some b \<and>
      (\<forall>kid \<in> set kids.
         \<exists>c \<in> set (case reps of None \<Rightarrow> [] | Some rs \<Rightarrow> yielded rs). stems_from kid c))"

text \<open>
  All objects of the source below a comment object, itself included, and all objects of a
  collection; all nodes of a returned tree.
\<close>

function (sequential) all_objects :: "raw_comment \<Rightarrow> raw_comment list"
  and all_yielded_objects :: "(exn + raw_comment) list \<Rightarrow> raw_comment list"
where
  "all_objects (MoreComments i) = [MoreComments i]"
| "all_objects (Comment i au bo cr sc sub st par perm reps) =
     Comment i au bo cr sc sub st par perm reps
       # (case reps of None \<Rightarrow> [] | Some rs \<Rightarrow> all_yielded_objects rs)"
| "all_yielded_objects [] = []"
| "all_yielded_objects (Inl e # evs) = all_yielded_objects evs"
| "all_yielded_objects (Inr c # evs) = all_objects c @ all_yielded_objects evs"
  by pat_completeness auto
termination
  by (relation "measure (\<lambda>x. case x of
         Inl c \<Rightarrow> size c
       | Inr rs \<Rightarrow> size_list (size_sum (\<lambda>e. 0) size) rs)")
     auto

fun all_nodes :: "comment_data \<Rightarrow> comment_data list" where
  "all_nodes (CommentData i a b cr sc sub st par perm d kids) =
     CommentData i a b cr sc sub st par perm d kids # concat (map all_nodes kids)"

text \<open>
  The depth discipline of a returned node under the limit \<open>max_depth\<close>: a node at or
  beyond the limit has no children, every child is one level below its parent, and the same
  holds in every subtree.
\<close>

fun depths_ok :: "int option \<Rightarrow> comment_data \<Rightarrow> bool" where
  "depths_ok max_depth (CommentData i a b cr sc sub st par perm d kids) =
     ((case max_depth of None \<Rightarrow> True | Some m \<Rightarrow> d \<ge> m \<longrightarrow> kids = []) \<and>
      (\<forall>kid \<in> set kids. c_depth kid = d + 1 \<and> depths_ok max_depth kid))"

text \<open>Source objects and submissions used as examples below.\<close>

definition raw_leaf :: "string \<Rightarrow> int \<Rightarrow> raw_comment" where
  "raw_leaf i sc =
     Comment i (Some ''alice'') (Some ''text'') 0 sc False False ''t3_post'' (''/c/'' @ i) (Some [])"

definition leaf_data :: "string \<Rightarrow> int \<Rightarrow> int \<Rightarrow> comment_data" where
  "leaf_data i sc d =
     CommentData i ''alice'' ''text'' 0 sc False False ''t3_post''
       (''https://www.reddit.com/c/'' @ i) d []"

definition raw_parent :: "string \<Rightarrow> int \<Rightarrow> (exn + raw_comment) list \<Rightarrow> raw_comment" where
  "raw_parent i sc rs =
     Comment i (Some ''bob'') (Some ''parent'') 0 sc False False ''t3_post'' (''/c/'' @ i) (Some rs)"

definition parent_data :: "string \<Rightarrow> int \<Rightarrow> int \<Rightarrow> comment_data list \<Rightarrow> comment_data" where
  "parent_data i sc d kids =
     CommentData i ''bob'' ''parent'' 0 sc False False ''t3_post''
       (''https://www.reddit.com/c/'' @ i) d kids"

definition raw_deleted :: "string \<Rightarrow> raw_comment" where
  "raw_deleted i =
     Comment i None (Some ''[deleted]'') 0 0 False False ''t3_post'' (''/c/'' @ i) (Some [])"

text \<open>The source delivers two comments with scores 1 and 5, in this order.\<close>

definition sub_unsorted :: submission_comments where
  "sub_unsorted =
     \<lparr>sub_id = ''post'', comments = (\<lambda>srt lim. [Inr (raw_leaf ''a'' 1), Inr (raw_leaf ''b'' 5)])\<rparr>"

text \<open>Five valid comments and one placeholder.\<close>

definition five_and_placeholder :: "raw_comment list" where
  "five_and_placeholder =
     [raw_leaf ''a'' 9, MoreComments ''more'', raw_leaf ''b'' 8, raw_leaf ''c'' 7,
      raw_leaf ''d'' 6, raw_leaf ''e'' 5]"

definition sub_five_and_placeholder :: submission_comments where
  "sub_five_and_placeholder =
     \<lparr>sub_id = ''post'', comments = (\<lambda>srt lim. map Inr five_and_placeholder)\<rparr>"

text \<open>
  One top-level comment with a reply, a deleted reply, a point where the expansion of its
  replies raises, and one more reply behind it; the first reply has a reply of its own.
\<close>

definition replies_failing :: "(exn + raw_comment) list" where
  "replies_failing =
     [Inr (raw_parent ''r1'' 3 [Inr (raw_leaf ''r1a'' 1)]), Inr (raw_deleted ''r2''),
      Inl exn_503, Inr (raw_leaf ''r3'' 2)]"

definition sub_failing_replies :: submission_comments where
  "sub_failing_replies =
     \<lparr>sub_id = ''post'', comments = (\<lambda>srt lim. map Inr [raw_parent ''t'' 4 replies_failing])\<rparr>"

section \<open>Notions and inputs used to state the properties of the media classifier\<close>

text \<open>The value \<^verbatim>\<open>d.get(k)\<close> of a dictionary given by its items.\<close>

definition dict_get :: "(string \<times> json) list \<Rightarrow> string \<Rightarrow> json" where
  "dict_get kvs k = (case map_of kvs k of None \<Rightarrow> JNone | Some v \<Rightarrow> v)"

text \<open>
  A link post to an image file on an external host, with a preview and with the oEmbed
  payload of a YouTube video.
\<close>

definition sub_image_and_youtube :: submission where
  "sub_image_and_youtube =
     \<lparr>is_gallery = None,
      media_metadata = None,
      is_video = False,
      media = Some JNone,
      preview = Some (JDict [(''images'', JList [JDict [(''source'',
                  JDict [(''url'', JStr ''https://preview.example/p.jpg''),
                         (''width'', JNum 640), (''height'', JNum 480)])]])]),
      domain = ''example.com'',
      is_self = False,
      url = ''https://example.com/Cover.JPG'',
      secure_media = Some (JDict [(''type'', JStr ''youtube.com''),
                  (''oembed'', JDict [(''type'', JStr ''video''),
                                      (''provider_name'', JStr ''YouTube''),
                                      (''title'', JStr ''A video''),
                                      (''html'', JStr ''<iframe></iframe>'')])])\<rparr>"

text \<open>
  A gallery post whose metadata has a well-formed image entry followed by an entry that is
  \<^verbatim>\<open>null\<close>.
\<close>

definition sub_gallery_malformed :: submission where
  "sub_gallery_malformed =
     \<lparr>is_gallery = Some (JBool True),
      media_metadata = Some (JDict [(''a1'', JDict [(''e'', JStr ''Image''),
                                                   (''m'', JStr ''image/jpg''),
                                                   (''s'', JDict [(''u'', JStr ''https://i.redd.it/a1.jpg''),
                                                                  (''x'', JNum 100), (''y'', JNum 50)])]),
                                    (''b2'', JNone)]),
      is_video = False,
      media = Some JNone,
      preview = None,
      domain = ''reddit.com'',
      is_self = False,
      url = ''https://www.reddit.com/gallery/abc'',
      secure_media = Some JNone\<rparr>"

section \<open>Properties of the string functions\<close>

declare wrapper_loop.simps [simp del]



lemma lower_simps: "lower [] = []" "lower (c # cs) = lower_char c # lower cs"
  by (simp_all add: lower_def)

section \<open>The error classifier\<close>




section \<open>The retry wrapper\<close>

lemma wrapper_loop_retry:
  "func retries = Inl e \<Longrightarrow> int retries < max_retries pol \<Longrightarrow> is_retryable_error e \<Longrightarrow>
   wrapper_loop fname pol rnd func retries cd sl =
     wrapper_loop fname pol rnd func (Suc retries) (min (cd * 2) (max_delay pol))
       (sl @ [min (cd + rnd retries * (cd * (1 / 10))) (max_delay pol)])"
  by (subst wrapper_loop.simps) (simp add: Let_def)

lemma wrapper_loop_stop:
  "func retries = Inl e \<Longrightarrow> int retries \<ge> max_retries pol \<or> \<not> is_retryable_error e \<Longrightarrow>
   wrapper_loop fname pol rnd func retries cd sl =
     \<lparr>outcome = Inl (give_up fname e), attempts = Suc retries, slept = sl\<rparr>"
  by (subst wrapper_loop.simps) auto

text \<open>The outcome of a run is decided by the last call of the wrapped function.\<close>

lemma wrapper_loop_outcome:
  "outcome (wrapper_loop fname pol rnd func retries cd sl) =
     (case func (attempts (wrapper_loop fname pol rnd func retries cd sl) - 1) of
        Inl e \<Rightarrow> Inl (give_up fname e)
      | Inr v \<Rightarrow> Inr v)"
proof (induction fname pol rnd func retries cd sl rule: wrapper_loop.induct)
  case (1 fname pol rnd func retries current_delay sl)
  show ?case
  proof (cases "func retries")
    case (Inr v)
    then show ?thesis by (simp add: wrapper_loop.simps[of fname pol rnd func retries])
  next
    case (Inl e)
    show ?thesis
    proof (cases "int retries \<ge> max_retries pol \<or> \<not> is_retryable_error e")
      case True
      with Inl show ?thesis by (auto simp: wrapper_loop.simps[of fname pol rnd func retries])
    next
      case False
      with Inl "1.IH"[OF Inl False refl refl] show ?thesis
        by (simp add: Let_def wrapper_loop.simps[of fname pol rnd func retries])
    qed
  qed
qed

text \<open>
  When every call up to the last allowed one fails with a retryable error, the loop makes
  \<open>max_retries + 1\<close> calls and gives up on the error of the last one.
\<close>

lemma wrapper_loop_exhaust:
  assumes "int retries \<le> max_retries pol"
    and "\<And>i. retries \<le> i \<Longrightarrow> int i < max_retries pol \<Longrightarrow> \<exists>e. func i = Inl e \<and> is_retryable_error e"
    and "func (nat (max_retries pol)) = Inl e"
  shows "outcome (wrapper_loop fname pol rnd func retries cd sl) = Inl (give_up fname e) \<and>
         attempts (wrapper_loop fname pol rnd func retries cd sl) = nat (max_retries pol) + 1 \<and>
         length (slept (wrapper_loop fname pol rnd func retries cd sl)) =
           length sl + (nat (max_retries pol) - retries)"
  using assms
proof (induction fname pol rnd func retries cd sl rule: wrapper_loop.induct)
  case (1 fname pol rnd func retries cd sl)
  let ?d = "min (cd + rnd retries * (cd * (1 / 10))) (max_delay pol)"
  let ?next = "wrapper_loop fname pol rnd func (retries + 1) (min (cd * 2) (max_delay pol)) (sl @ [?d])"
  show ?case
  proof (cases "int retries < max_retries pol")
    case True
    then obtain e' where e': "func retries = Inl e'" "is_retryable_error e'"
      using "1.prems"(2)[of retries] by auto
    have step: "wrapper_loop fname pol rnd func retries cd sl = ?next"
      using wrapper_loop_retry[where func=func and retries=retries, OF e'(1) True e'(2)] by simp
    have nstop: "\<not> (max_retries pol \<le> int retries \<or> \<not> is_retryable_error e')"
      using True e'(2) by simp
    have "int (retries + 1) \<le> max_retries pol" using True by simp
    moreover have "\<exists>e. func i = Inl e \<and> is_retryable_error e"
      if "retries + 1 \<le> i" "int i < max_retries pol" for i
      using "1.prems"(2)[of i] that by simp
    ultimately have IH: "outcome ?next = Inl (give_up fname e) \<and>
       attempts ?next = nat (max_retries pol) + 1 \<and>
       length (slept ?next) = length (sl @ [?d]) + (nat (max_retries pol) - (retries + 1))"
      using "1.IH"[OF e'(1) nstop refl refl _ _ "1.prems"(3)] by blast
    from True have "Suc (length sl) + (nat (max_retries pol) - Suc retries)
        = length sl + (nat (max_retries pol) - retries)"
      by linarith
    with IH show ?thesis unfolding step by simp
  next
    case False
    with "1.prems"(1) have eq: "nat (max_retries pol) = retries" by simp
    with "1.prems"(3) have "func retries = Inl e" by simp
    from wrapper_loop_stop[where func=func and retries=retries, OF this] False
    show ?thesis using eq by simp
  qed
qed

lemma run_always_503:
  "attempts (retry_with_backoff default_policy ''fetch_post_data'' no_jitter always_503) = 4 \<and>
   outcome (retry_with_backoff default_policy ''fetch_post_data'' no_jitter always_503) = Inl exn_503"
proof -
  have r: "is_retryable_error exn_503"
    by (simp add: is_retryable_error_def exn_503_def)
  have m: "max_retries default_policy = 3" by (simp add: default_policy_def)
  have a: "always_503 n = Inl exn_503" for n by (simp add: always_503_def)
  show ?thesis
    unfolding retry_with_backoff_def
    using wrapper_loop_exhaust[where func=always_503 and pol=default_policy and retries=0
        and e=exn_503 and fname="''fetch_post_data''" and rnd=no_jitter
        and cd="base_delay default_policy" and sl="[]"] r
    by (simp add: a m give_up_def) (simp add: exn_503_def)
qed

text \<open>
  Claim C3, as amended. Under a policy with \<open>max_retries = 3\<close>, an operation whose first
  three calls raise retryable errors and whose fourth call raises \<open>e3\<close> is called exactly
  4 times, with 3 sleeps in between, and the wrapper then raises one error. That error is
  \<open>e3\<close> itself unless \<open>e3\<close> is a PRAW exception; a PRAW exception becomes an
  \<open>APIAuthenticationError\<close> when its text contains 401 or 403, else a
  \<open>PostRetrievalError\<close> or \<open>CommentRetrievalError\<close> when the wrapped function is
  \<open>fetch_post_data\<close> or \<open>fetch_comments_data\<close>, each with \<open>e3\<close> as its cause, and is
  raised again as it is under any other function.
\<close>

theorem retry_exhausted:
  assumes "max_retries pol = 3"
    and "func 0 = Inl e0" and "is_retryable_error e0"
    and "func 1 = Inl e1" and "is_retryable_error e1"
    and "func 2 = Inl e2" and "is_retryable_error e2"
    and "func 3 = Inl e3"
  shows "attempts (retry_with_backoff pol fname rnd func) = 4 \<and>
         length (slept (retry_with_backoff pol fname rnd func)) = 3 \<and>
         outcome (retry_with_backoff pol fname rnd func) =
           Inl (if isinstance_PRAWException e3 then
                  (if str_contains ''401'' (str_of e3) \<or> str_contains ''403'' (str_of e3) then
                     Exn APIAuthenticationError None
                       (''Authentication failed during '' @ fname @ '': '' @ str_of e3) (Some e3)
                   else if fname = ''fetch_post_data'' then
                     Exn PostRetrievalError None
                       (''API error in '' @ fname @ '': '' @ str_of e3) (Some e3)
                   else if fname = ''fetch_comments_data'' then
                     Exn CommentRetrievalError None
                       (''API error in '' @ fname @ '': '' @ str_of e3) (Some e3)
                   else e3)
                else e3)"
proof -
  have all: "\<exists>e. func i = Inl e \<and> is_retryable_error e" if "0 \<le> i" "int i < max_retries pol" for i
  proof -
    from that assms(1) have "i = 0 \<or> i = 1 \<or> i = 2" by auto
    with assms show ?thesis by auto
  qed
  have last: "func (nat (max_retries pol)) = Inl e3" using assms(1,8) by simp
  have "int 0 \<le> max_retries pol" using assms(1) by simp
  from wrapper_loop_exhaust[where func=func and retries=0 and pol=pol and e=e3 and fname=fname
      and rnd=rnd and cd="base_delay pol" and sl="[]", OF this all last] assms(1)
  show ?thesis by (simp add: retry_with_backoff_def give_up_def)
qed

text \<open>
  The theorem at \<open>fetch_post_data\<close> failing every time with a rate-limit
  \<open>RedditAPIException\<close>: 4 calls, then a \<open>PostRetrievalError\<close> caused by it.
\<close>

theorem retry_exhausted_witness:
  "attempts (retry_with_backoff default_policy ''fetch_post_data'' no_jitter always_ratelimit) = 4 \<and>
   outcome (retry_with_backoff default_policy ''fetch_post_data'' no_jitter always_ratelimit) =
     Inl (Exn PostRetrievalError None
            ''API error in fetch_post_data: RATELIMIT: you are doing that too much''
            (Some exn_ratelimit))"
proof -
  have r: "is_retryable_error exn_ratelimit"
    by (simp add: is_retryable_error_def exn_ratelimit_def lower_simps lower_char_def
          retryable_phrases_def)
  have m: "max_retries default_policy = 3" by (simp add: default_policy_def)
  from retry_exhausted[of default_policy always_ratelimit exn_ratelimit exn_ratelimit exn_ratelimit
      exn_ratelimit "''fetch_post_data''" no_jitter, OF m _ r _ r _ r]
  show ?thesis by (simp add: always_ratelimit_def exn_ratelimit_def)
qed

text \<open>
  Claim C3 as stated fails: when every call raises a prawcore response exception with
  status 503, which is retryable and is not a PRAW exception, the wrapper makes 4 calls and
  raises that very exception: its class is not one of the domain errors and it has no cause.
\<close>

theorem retry_exhausted_counterexample:
  "is_retryable_error exn_503 \<and>
   attempts (retry_with_backoff default_policy ''fetch_post_data'' no_jitter always_503) = 4 \<and>
   outcome (retry_with_backoff default_policy ''fetch_post_data'' no_jitter always_503) = Inl exn_503 \<and>
   exc_cls exn_503 = ResponseException \<and> cause exn_503 = None"
proof -
  have "is_retryable_error exn_503"
    by (simp add: is_retryable_error_def exn_503_def)
  with run_always_503 show ?thesis by (simp add: exn_503_def)
qed

text \<open>
  Claim C10. When the last call of the wrapped function raised \<open>e\<close>, so that the wrapper
  gave up on it, and \<open>e\<close> is not a PRAW exception, the wrapper raises \<open>e\<close> itself,
  unchanged and unwrapped.
\<close>

theorem retry_reraises_original:
  assumes "func (attempts (retry_with_backoff pol fname rnd func) - 1) = Inl e"
    and "\<not> isinstance_PRAWException e"
  shows "outcome (retry_with_backoff pol fname rnd func) = Inl e"
  using wrapper_loop_outcome[of fname pol rnd func 0 "base_delay pol" "[]"] assms
  unfolding retry_with_backoff_def by (simp add: give_up_def)

text \<open>The theorem at the operation that always raises the 503 response exception.\<close>

theorem retry_reraises_original_witness:
  "always_503 (attempts (retry_with_backoff default_policy ''fetch_post_data'' no_jitter always_503) - 1)
     = Inl exn_503
   \<and> \<not> isinstance_PRAWException exn_503
   \<and> outcome (retry_with_backoff default_policy ''fetch_post_data'' no_jitter always_503) = Inl exn_503"
proof -
  have a: "always_503 (attempts (retry_with_backoff default_policy ''fetch_post_data'' no_jitter
             always_503) - 1) = Inl exn_503"
    by (simp add: always_503_def)
  have b: "\<not> isinstance_PRAWException exn_503" by (simp add: exn_503_def)
  from retry_reraises_original[where func=always_503 and pol=default_policy
      and fname="''fetch_post_data''" and rnd=no_jitter and e=exn_503, OF a b] a b
  show ?thesis by simp
qed

section \<open>The comment tree\<close>

text \<open>\<open>_process_comment\<close> on a comment object, in one equation.\<close>

lemma process_comment_eq:
  "process_comment (Comment i au bo cr sc sub st par perm reps) depth md =
     (if au = None \<or> bo = None then None
      else Some (CommentData i (the au) (the bo) cr sc sub st par
                   (''https://www.reddit.com'' @ perm) depth
                   (if (case md of None \<Rightarrow> False | Some m \<Rightarrow> m \<le> depth) then []
                    else case reps of None \<Rightarrow> [] | Some rs \<Rightarrow> process_replies rs depth md [])))"
  by (cases au; cases bo; cases reps; simp add: Let_def)

declare process_comment.simps(2) [simp del]

lemma process_comment_None: "process_comment c depth md = None \<longleftrightarrow> \<not> valid_raw c"
  by (cases c) (auto simp: process_comment_eq)

lemma process_comment_Some: "process_comment c depth md = Some node \<Longrightarrow> valid_raw c"
  using process_comment_None[of c depth md] by auto

lemma process_replies_yield:
  "process_replies (map Inr cs) depth md acc =
     acc @ List.map_filter (\<lambda>c. process_comment c (depth + 1) md) cs"
proof (induction cs arbitrary: acc)
  case Nil
  then show ?case by simp
next
  case (Cons c cs)
  show ?case
    by (cases "process_comment c (depth + 1) md") (simp_all add: Cons.IH)
qed

lemma process_replies_cut:
  "process_replies (map Inr pre @ Inl e # post) depth md acc
     = process_replies (map Inr pre) depth md acc"
proof (induction pre arbitrary: acc)
  case Nil
  then show ?case by simp
next
  case (Cons c pre)
  show ?case
    by (cases "process_comment c (depth + 1) md") (simp_all add: Cons.IH)
qed

lemma map_filter_valid:
  "List.map_filter (\<lambda>c. process_comment c depth md) (filter valid_raw cs)
     = List.map_filter (\<lambda>c. process_comment c depth md) cs"
  by (induction cs) (auto simp: process_comment_None dest: process_comment_Some split: option.splits)

lemma length_map_filter_valid:
  "length (List.map_filter (\<lambda>c. process_comment c depth md) cs) = length (filter valid_raw cs)"
  by (induction cs) (auto simp: process_comment_None dest: process_comment_Some split: option.splits)

text \<open>The top-level loop on a collection whose iteration does not raise.\<close>

lemma top_level_loop_yield:
  "top_level_loop (map Inr cs) n d acc cnt =
     Inr (acc @ take (nat (n - cnt)) (List.map_filter (\<lambda>c. process_comment c 0 d) cs))"
proof (induction cs arbitrary: acc cnt)
  case Nil
  then show ?case by simp
next
  case (Cons c cs)
  show ?case
  proof (cases "cnt \<ge> n")
    case True
    then show ?thesis by simp
  next
    case False
    then have nat: "nat (n - cnt) = Suc (nat (n - (cnt + 1)))" by linarith
    show ?thesis
    proof (cases c)
      case (MoreComments i)
      with False show ?thesis by (simp add: Cons.IH)
    next
      case (Comment i au bo cr sc sub st par perm reps)
      show ?thesis
      proof (cases "process_comment c 0 d")
        case None
        with False Comment show ?thesis by (simp add: Cons.IH)
      next
        case (Some node)
        with False Comment nat show ?thesis by (simp add: Cons.IH)
      qed
    qed
  qed
qed

text \<open>The loop never collects more than \<open>num_comments\<close> entries.\<close>

lemma top_level_loop_length:
  "top_level_loop evs n d acc cnt = Inr l \<Longrightarrow> int (length acc) = cnt \<Longrightarrow> cnt \<le> max 0 n \<Longrightarrow>
   int (length l) \<le> max 0 n"
proof (induction evs arbitrary: acc cnt)
  case Nil
  then show ?case by simp
next
  case (Cons ev evs)
  show ?case
  proof (cases ev)
    case (Inl e)
    with Cons.prems show ?thesis by simp
  next
    case (Inr c)
    show ?thesis
    proof (cases "cnt \<ge> n")
      case True
      with Inr Cons.prems show ?thesis by simp
    next
      case False
      show ?thesis
      proof (cases "process_comment c 0 d")
        case None
        with False Inr Cons.prems have "top_level_loop evs n d acc cnt = Inr l"
          by (cases c) simp_all
        from Cons.IH[OF this Cons.prems(2,3)] show ?thesis .
      next
        case (Some node)
        then obtain i au bo cr sc sub st par perm reps
          where c: "c = Comment i au bo cr sc sub st par perm reps"
          by (cases c) simp_all
        with Some False Inr Cons.prems
        have "top_level_loop evs n d (acc @ [node]) (cnt + 1) = Inr l" by simp
        moreover have "int (length (acc @ [node])) = cnt + 1" using Cons.prems(2) by simp
        moreover have "cnt + 1 \<le> max 0 n" using False by simp
        ultimately show ?thesis by (rule Cons.IH)
      qed
    qed
  qed
qed

text \<open>Every entry the loop adds is the result of \<open>_process_comment\<close> on a yielded object.\<close>

lemma top_level_loop_members:
  "top_level_loop evs n d acc cnt = Inr l \<Longrightarrow>
   \<forall>t \<in> set l. t \<in> set acc \<or> (\<exists>c \<in> set (yielded evs). process_comment c 0 d = Some t)"
proof (induction evs arbitrary: acc cnt)
  case Nil
  then show ?case by simp
next
  case (Cons ev evs)
  show ?case
  proof (cases ev)
    case (Inl e)
    with Cons.prems show ?thesis by simp
  next
    case (Inr c)
    show ?thesis
    proof (cases "cnt \<ge> n")
      case True
      with Inr Cons.prems show ?thesis by auto
    next
      case False
      show ?thesis
      proof (cases "process_comment c 0 d")
        case None
        with False Inr Cons.prems have "top_level_loop evs n d acc cnt = Inr l"
          by (cases c) simp_all
        from Cons.IH[OF this] Inr show ?thesis by auto
      next
        case (Some node)
        then obtain i au bo cr sc sub st par perm reps
          where c: "c = Comment i au bo cr sc sub st par perm reps"
          by (cases c) simp_all
        with Some False Inr Cons.prems
        have "top_level_loop evs n d (acc @ [node]) (cnt + 1) = Inr l" by simp
        from Cons.IH[OF this] Inr Some show ?thesis by auto
      qed
    qed
  qed
qed

lemma slice_to_short: "int (length l) \<le> max 0 n \<Longrightarrow> slice_to l n = l"
  by (auto simp: slice_to_def)

lemma actual_praw_sort_score: "lower so = ''score'' \<Longrightarrow> actual_praw_sort so = ''top''"
  by (simp add: actual_praw_sort_def valid_praw_sorts_def)

lemma sort_top: "lower ''top'' = ''top''" "actual_praw_sort ''top'' = ''top''"
  by (simp_all add: actual_praw_sort_def valid_praw_sorts_def lower_def lower_char_def)

lemma sort_best: "lower ''best'' = ''best''" "actual_praw_sort ''best'' = ''best''"
  by (simp_all add: actual_praw_sort_def valid_praw_sorts_def lower_def lower_char_def)

text \<open>What \<open>fetch_comments_data\<close> returns is taken from what its loop collected.\<close>

lemma fetch_comments_data_Inr:
  assumes "fetch_comments_data submission so n d = Inr r"
  shows "\<exists>l. top_level_loop (comments submission (actual_praw_sort so) (comment_limit n)) n d [] 0
               = Inr l \<and> set r \<subseteq> set l"
proof (cases "top_level_loop (comments submission (actual_praw_sort so) (comment_limit n)) n d [] 0")
  case (Inl e)
  with assms show ?thesis by (simp add: fetch_comments_data_def)
next
  case (Inr l)
  from top_level_loop_length[OF Inr] have "slice_to l n = l" by (simp add: slice_to_short)
  with assms Inr have "r = l"
    by (auto simp: fetch_comments_data_def actual_praw_sort_score split: if_splits)
  with Inr show ?thesis by simp
qed

text \<open>The whole fetch when the iteration over the top-level collection does not raise.\<close>

lemma fetch_comments_data_yield:
  assumes "comments submission (actual_praw_sort so) (comment_limit n) = map Inr cs"
  shows "fetch_comments_data submission so n d
           = Inr (take (nat n) (List.map_filter (\<lambda>c. process_comment c 0 d) cs))"
proof -
  let ?l = "take (nat n) (List.map_filter (\<lambda>c. process_comment c 0 d) cs)"
  have loop: "top_level_loop (comments submission (actual_praw_sort so) (comment_limit n)) n d [] 0
                = Inr ?l"
    using top_level_loop_yield[of cs n d "[]" 0] assms by simp
  from top_level_loop_length[OF loop] have "slice_to ?l n = ?l" by (simp add: slice_to_short)
  with loop show ?thesis
    by (simp add: fetch_comments_data_def actual_praw_sort_score)
qed

lemma process_depths:
  "(\<forall>node. process_comment c depth md = Some node \<longrightarrow> c_depth node = depth \<and> depths_ok md node)"
  "(\<forall>k \<in> set acc. c_depth k = depth + 1 \<and> depths_ok md k) \<longrightarrow>
   (\<forall>k \<in> set (process_replies rs depth md acc). c_depth k = depth + 1 \<and> depths_ok md k)"
proof (induction c depth md and rs depth md acc rule: process_comment_process_replies.induct)
  case (1 i depth max_depth)
  then show ?case by simp
next
  case (2 i au bo cr sc sub st par perm reps depth max_depth)
  show ?case
  proof (intro allI impI)
    fix node
    assume res: "process_comment (Comment i au bo cr sc sub st par perm reps) depth max_depth
                   = Some node"
    then obtain b name where bo: "bo = Some b" and au: "au = Some name"
      by (auto simp: process_comment_eq split: if_splits)
    define lim where "lim = (case max_depth of None \<Rightarrow> False | Some m \<Rightarrow> m \<le> depth)"
    define kids where "kids = (if lim then []
       else case reps of None \<Rightarrow> [] | Some rs \<Rightarrow> process_replies rs depth max_depth [])"
    from res bo au
    have node: "node = CommentData i name b cr sc sub st par (''https://www.reddit.com'' @ perm)
                         depth kids"
      by (simp add: process_comment_eq kids_def lim_def)
    have kids: "\<forall>k \<in> set kids. c_depth k = depth + 1 \<and> depths_ok max_depth k"
    proof (cases "lim \<or> reps = None")
      case True
      then show ?thesis by (auto simp: kids_def)
    next
      case False
      then obtain rs where rs: "reps = Some rs" by auto
      from False have nl: "\<not> (case max_depth of None \<Rightarrow> False | Some m \<Rightarrow> m \<le> depth)"
        by (simp add: lim_def)
      from False rs have "kids = process_replies rs depth max_depth []" by (simp add: kids_def)
      with "2.IH"[OF bo au refl nl rs] show ?thesis by simp
    qed
    have "lim \<Longrightarrow> kids = []" by (simp add: kids_def)
    then have lim: "case max_depth of None \<Rightarrow> True | Some m \<Rightarrow> m \<le> depth \<longrightarrow> kids = []"
      by (cases max_depth) (simp_all add: lim_def)
    show "c_depth node = depth \<and> depths_ok max_depth node"
      unfolding node using kids lim by simp
  qed
next
  case (3 depth max_depth acc)
  then show ?case by simp
next
  case (4 e rest depth max_depth acc)
  then show ?case by simp
next
  case (5 reply_praw_object rest depth max_depth acc)
  let ?ok = "\<lambda>k. c_depth k = depth + 1 \<and> depths_ok max_depth k"
  show ?case
  proof (intro impI)
    assume acc: "\<forall>k \<in> set acc. ?ok k"
    show "\<forall>k \<in> set (process_replies (Inr reply_praw_object # rest) depth max_depth acc). ?ok k"
    proof (cases "process_comment reply_praw_object (depth + 1) max_depth")
      case None
      then have "process_replies (Inr reply_praw_object # rest) depth max_depth acc
                 = process_replies rest depth max_depth acc" by simp
      with "5.IH"(2)[OF None] acc show ?thesis by metis
    next
      case (Some x)
      then have eq: "process_replies (Inr reply_praw_object # rest) depth max_depth acc
                 = process_replies rest depth max_depth (acc @ [x])" by simp
      from "5.IH"(1) Some have "?ok x" by blast
      with acc have "\<forall>k \<in> set (acc @ [x]). ?ok k" by auto
      with "5.IH"(3)[OF Some]
      have "\<forall>k \<in> set (process_replies rest depth max_depth (acc @ [x])). ?ok k"
        by blast
      with eq show ?thesis by metis
    qed
  qed
qed

lemma process_stems:
  "(\<forall>node. process_comment c depth md = Some node \<longrightarrow> stems_from node c)"
  "(\<forall>k \<in> set (process_replies rs depth md acc).
      k \<in> set acc \<or> (\<exists>c \<in> set (yielded rs). stems_from k c))"
proof (induction c depth md and rs depth md acc rule: process_comment_process_replies.induct)
  case (1 i depth max_depth)
  then show ?case by simp
next
  case (2 i au bo cr sc sub st par perm reps depth max_depth)
  show ?case
  proof (intro allI impI)
    fix node
    assume res: "process_comment (Comment i au bo cr sc sub st par perm reps) depth max_depth
                   = Some node"
    then obtain b name where bo: "bo = Some b" and au: "au = Some name"
      by (auto simp: process_comment_eq split: if_splits)
    define lim where "lim = (case max_depth of None \<Rightarrow> False | Some m \<Rightarrow> m \<le> depth)"
    define kids where "kids = (if lim then []
       else case reps of None \<Rightarrow> [] | Some rs \<Rightarrow> process_replies rs depth max_depth [])"
    from res bo au
    have node: "node = CommentData i name b cr sc sub st par (''https://www.reddit.com'' @ perm)
                         depth kids"
      by (simp add: process_comment_eq kids_def lim_def)
    have kids: "\<forall>k \<in> set kids.
                  \<exists>c \<in> set (case reps of None \<Rightarrow> [] | Some rs \<Rightarrow> yielded rs). stems_from k c"
    proof (cases "lim \<or> reps = None")
      case True
      then show ?thesis by (auto simp: kids_def)
    next
      case False
      then obtain rs where rs: "reps = Some rs" by auto
      from False have nl: "\<not> (case max_depth of None \<Rightarrow> False | Some m \<Rightarrow> m \<le> depth)"
        by (simp add: lim_def)
      from False rs have "kids = process_replies rs depth max_depth []" by (simp add: kids_def)
      with "2.IH"[OF bo au refl nl rs] rs show ?thesis by simp
    qed
    show "stems_from node (Comment i au bo cr sc sub st par perm reps)"
      unfolding node using kids bo au by simp
  qed
next
  case (3 depth max_depth acc)
  then show ?case by simp
next
  case (4 e rest depth max_depth acc)
  then show ?case by simp
next
  case (5 reply_praw_object rest depth max_depth acc)
  show ?case
  proof (cases "process_comment reply_praw_object (depth + 1) max_depth")
    case None
    with "5.IH"(2)[OF None] show ?thesis by auto
  next
    case (Some x)
    with "5.IH"(1) have "stems_from x reply_praw_object" by simp
    with "5.IH"(3)[OF Some] Some show ?thesis by auto
  qed
qed

lemma all_yielded_objects_mono:
  "c \<in> set (yielded rs) \<Longrightarrow> set (all_objects c) \<subseteq> set (all_yielded_objects rs)"
proof (induction rs)
  case Nil
  then show ?case by simp
next
  case (Cons ev rs)
  then show ?case by (cases ev) auto
qed

text \<open>
  Under a node that stems from a comment object, every node carries the id, author and
  body of a valid object under that comment.
\<close>

lemma stems_from_all_nodes:
  "stems_from node c \<Longrightarrow>
   \<forall>m \<in> set (all_nodes node). \<exists>ob \<in> set (all_objects c).
      valid_raw ob \<and> rid ob = c_id m \<and> author ob = Some (c_author m) \<and> body ob = Some (c_body m)"
proof (induction node c rule: stems_from.induct)
  case (1 i a b cr sc sub st par perm d kids j)
  then show ?case by simp
next
  case (2 i a b cr sc sub st par perm d kids i' au bo cr' sc' sub' st' par' perm' reps)
  let ?ys = "case reps of None \<Rightarrow> [] | Some rs \<Rightarrow> yielded rs"
  let ?good = "\<lambda>m ob. valid_raw ob \<and> rid ob = c_id m \<and> author ob = Some (c_author m)
                 \<and> body ob = Some (c_body m)"
  from "2.prems" have hd: "i' = i" "au = Some a" "bo = Some b"
    and kids: "\<forall>kid \<in> set kids. \<exists>c \<in> set ?ys. stems_from kid c"
    by simp_all
  show ?case
  proof
    fix m assume "m \<in> set (all_nodes (CommentData i a b cr sc sub st par perm d kids))"
    then consider "m = CommentData i a b cr sc sub st par perm d kids"
      | kid where "kid \<in> set kids" "m \<in> set (all_nodes kid)"
      by auto
    then show "\<exists>ob \<in> set (all_objects (Comment i' au bo cr' sc' sub' st' par' perm' reps)).
                 ?good m ob"
    proof cases
      case 1
      with hd show ?thesis by simp
    next
      case 2
      with kids obtain c where c: "c \<in> set ?ys" "stems_from kid c" by blast
      from "2.IH"[OF 2(1) c] 2(2) obtain ob where ob: "ob \<in> set (all_objects c)" "?good m ob"
        by blast
      from c(1) obtain rs where rs: "reps = Some rs" "c \<in> set (yielded rs)"
        by (cases reps) auto
      with all_yielded_objects_mono[OF rs(2)] ob(1)
      have "ob \<in> set (all_objects (Comment i' au bo cr' sc' sub' st' par' perm' reps))"
        by auto
      with ob(2) show ?thesis by blast
    qed
  qed
qed

text \<open>The fetches of the example submissions.\<close>

lemma fetch_unsorted:
  "lower so = ''score'' \<Longrightarrow>
   fetch_comments_data sub_unsorted so 2 (Some 1)
     = Inr [leaf_data ''a'' 1 0, leaf_data ''b'' 5 0]"
  by (subst fetch_comments_data_yield[where cs="[raw_leaf ''a'' 1, raw_leaf ''b'' 5]"])
     (simp_all add: sub_unsorted_def raw_leaf_def leaf_data_def process_comment_eq)

lemma fetch_five_and_placeholder:
  "fetch_comments_data sub_five_and_placeholder ''best'' 2 (Some 1)
     = Inr [leaf_data ''a'' 9 0, leaf_data ''b'' 8 0]"
  by (subst fetch_comments_data_yield[where cs=five_and_placeholder])
     (simp_all add: sub_five_and_placeholder_def five_and_placeholder_def raw_leaf_def
        leaf_data_def process_comment_eq numeral_2_eq_2)

lemma replies_failing_split:
  "replies_failing =
     map Inr [raw_parent ''r1'' 3 [Inr (raw_leaf ''r1a'' 1)], raw_deleted ''r2'']
       @ Inl exn_503 # [Inr (raw_leaf ''r3'' 2)]"
  by (simp add: replies_failing_def)

lemma process_failing_replies:
  "process_comment (raw_parent ''t'' 4 replies_failing) 0 None
     = Some (parent_data ''t'' 4 0 [parent_data ''r1'' 3 1 [leaf_data ''r1a'' 1 2]])"
  by (simp add: replies_failing_def raw_parent_def raw_leaf_def raw_deleted_def parent_data_def
        leaf_data_def process_comment_eq)

lemma fetch_failing_replies:
  "fetch_comments_data sub_failing_replies ''best'' 5 None
     = Inr [parent_data ''t'' 4 0 [parent_data ''r1'' 3 1 [leaf_data ''r1a'' 1 2]]]"
  by (subst fetch_comments_data_yield[where cs="[raw_parent ''t'' 4 replies_failing]"])
     (simp_all add: sub_failing_replies_def process_failing_replies)

lemma fetch_failing_replies_depth0:
  "fetch_comments_data sub_failing_replies ''best'' 5 (Some 0)
     = Inr [parent_data ''t'' 4 0 []]"
  by (subst fetch_comments_data_yield[where cs="[raw_parent ''t'' 4 replies_failing]"])
     (simp_all add: sub_failing_replies_def raw_parent_def parent_data_def process_comment_eq)

text \<open>
  Claim C1, as amended. With \<open>sort_order\<close> \<open>score\<close>, in any letter case, the builder
  returns exactly what it returns for \<open>top\<close>: the list has at most \<open>num_top_level\<close>
  entries, and when the source delivers the objects \<open>cs\<close> for its \<open>top\<close> ordering the
  list is made of the first \<open>num_top_level\<close> valid ones in the order of \<open>cs\<close>. The list
  is not sorted again: its scores are non-increasing only when the source delivered them so.
\<close>

theorem score_order_is_source_order:
  assumes "lower sort_order = ''score''"
  shows "fetch_comments_data submission sort_order n d = fetch_comments_data submission ''top'' n d
       \<and> (case fetch_comments_data submission sort_order n d of
            Inl e \<Rightarrow> True
          | Inr l \<Rightarrow> int (length l) \<le> max 0 n)
       \<and> (comments submission ''top'' (comment_limit n) = map Inr cs \<longrightarrow>
            fetch_comments_data submission sort_order n d
              = Inr (take (nat n) (List.map_filter (\<lambda>c. process_comment c 0 d) cs)))"
proof -
  have third: "comments submission ''top'' (comment_limit n) = map Inr cs \<longrightarrow>
            fetch_comments_data submission sort_order n d
              = Inr (take (nat n) (List.map_filter (\<lambda>c. process_comment c 0 d) cs))"
    using fetch_comments_data_yield[of submission sort_order n cs d] assms
    by (simp add: actual_praw_sort_score)
  show ?thesis
  proof (cases "top_level_loop (comments submission ''top'' (comment_limit n)) n d [] 0")
    case (Inl e)
    with assms third show ?thesis
      by (simp add: fetch_comments_data_def actual_praw_sort_score sort_top)
  next
    case (Inr l)
    from top_level_loop_length[OF Inr] have len: "int (length l) \<le> max 0 n" by simp
    then have "slice_to l n = l" by (rule slice_to_short)
    with assms Inr len third show ?thesis
      by (simp add: fetch_comments_data_def actual_praw_sort_score sort_top)
  qed
qed

text \<open>
  The theorem at the order \<open>Score\<close> and a source that delivers scores 1 and 5: the list
  keeps this order.
\<close>

theorem score_order_is_source_order_witness:
  "lower ''Score'' = ''score'' \<and>
   fetch_comments_data sub_unsorted ''Score'' 2 (Some 1) = fetch_comments_data sub_unsorted ''top'' 2 (Some 1) \<and>
   fetch_comments_data sub_unsorted ''Score'' 2 (Some 1)
     = Inr [leaf_data ''a'' 1 0, leaf_data ''b'' 5 0]"
proof -
  have l: "lower ''Score'' = ''score''" by (simp add: lower_def lower_char_def)
  have c: "comments sub_unsorted ''top'' (comment_limit 2) = map Inr [raw_leaf ''a'' 1, raw_leaf ''b'' 5]"
    by (simp add: sub_unsorted_def)
  note t = score_order_is_source_order[OF l, of sub_unsorted 2 "Some 1"
      "[raw_leaf ''a'' 1, raw_leaf ''b'' 5]"]
  from t have "fetch_comments_data sub_unsorted ''Score'' 2 (Some 1)
                 = fetch_comments_data sub_unsorted ''top'' 2 (Some 1)"
    by (rule conjunct1)
  moreover from t c have "fetch_comments_data sub_unsorted ''Score'' 2 (Some 1)
          = Inr (take (nat 2) (List.map_filter (\<lambda>c. process_comment c 0 (Some 1))
                   [raw_leaf ''a'' 1, raw_leaf ''b'' 5]))"
    by blast
  ultimately have "fetch_comments_data sub_unsorted ''Score'' 2 (Some 1)
                 = fetch_comments_data sub_unsorted ''top'' 2 (Some 1)"
    and "fetch_comments_data sub_unsorted ''Score'' 2 (Some 1)
          = Inr [leaf_data ''a'' 1 0, leaf_data ''b'' 5 0]"
    by (simp_all add: raw_leaf_def leaf_data_def process_comment_eq)
  with l show ?thesis by simp
qed

text \<open>
  Claim C1 as stated fails: the source delivers two comments with scores 1 and 5 in this
  order, and with \<open>sort_order\<close> \<open>score\<close> the builder returns them in this order, which is
  not non-increasing in the score.
\<close>

theorem score_order_counterexample:
  "fetch_comments_data sub_unsorted ''score'' 2 (Some 1)
     = Inr [leaf_data ''a'' 1 0, leaf_data ''b'' 5 0]
   \<and> \<not> sorted_wrt (\<lambda>x y. c_score x \<ge> c_score y) [leaf_data ''a'' 1 0, leaf_data ''b'' 5 0]"
proof -
  have "lower ''score'' = ''score''" by (simp add: lower_def lower_char_def)
  from fetch_unsorted[OF this] show ?thesis by (simp add: leaf_data_def)
qed

text \<open>
  Claim C6. In every tree the builder returns, the top-level nodes have depth 0, every
  child has the depth of its parent plus 1, and a node at a depth at or beyond
  \<open>max_depth\<close> has no children; with \<open>max_depth = 0\<close> every top-level node has no
  children. A comment with author and body that is reached at a depth at or beyond
  \<open>max_depth\<close> is returned, with that depth and no children, whatever its replies are.
\<close>

theorem depth_discipline:
  "(fetch_comments_data submission so n md = Inr r \<longrightarrow>
      (\<forall>top \<in> set r. c_depth top = 0 \<and> depths_ok md top) \<and>
      (md = Some 0 \<longrightarrow> (\<forall>top \<in> set r. c_replies top = [])))
   \<and> (m \<le> depth \<longrightarrow>
        process_comment (Comment i (Some a) (Some b) cr sc sub st par perm reps) depth (Some m)
          = Some (CommentData i a b cr sc sub st par (''https://www.reddit.com'' @ perm) depth []))"
proof -
  have tops: "\<forall>top \<in> set r. c_depth top = 0 \<and> depths_ok md top"
    if "fetch_comments_data submission so n md = Inr r"
  proof
    fix top assume "top \<in> set r"
    with fetch_comments_data_Inr[OF that] obtain l
      where l: "top_level_loop (comments submission (actual_praw_sort so) (comment_limit n)) n md [] 0
                 = Inr l" and "top \<in> set l"
      by auto
    with top_level_loop_members[OF l] obtain c where "process_comment c 0 md = Some top"
      by auto
    with process_depths(1)[of c 0 md] show "c_depth top = 0 \<and> depths_ok md top" by simp
  qed
  have leafs: "\<forall>top \<in> set r. c_replies top = []"
    if "fetch_comments_data submission so n md = Inr r" "md = Some 0"
  proof
    fix top assume "top \<in> set r"
    with tops[OF that(1)] have "c_depth top = 0" "depths_ok md top" by auto
    with that(2) show "c_replies top = []" by (cases top) simp
  qed
  have first: "fetch_comments_data submission so n md = Inr r \<longrightarrow>
      (\<forall>top \<in> set r. c_depth top = 0 \<and> depths_ok md top) \<and>
      (md = Some 0 \<longrightarrow> (\<forall>top \<in> set r. c_replies top = []))"
    using tops leafs by blast
  have second: "m \<le> depth \<longrightarrow>
        process_comment (Comment i (Some a) (Some b) cr sc sub st par perm reps) depth (Some m)
          = Some (CommentData i a b cr sc sub st par (''https://www.reddit.com'' @ perm) depth [])"
    by (simp add: process_comment_eq)
  from first second show ?thesis by (rule conjI)
qed

text \<open>
  The theorem at a top-level comment that has replies, fetched with \<open>max_depth = 0\<close>: it is
  returned at depth 0 without children.
\<close>

theorem depth_discipline_witness:
  "fetch_comments_data sub_failing_replies ''best'' 5 (Some 0) = Inr [parent_data ''t'' 4 0 []]
   \<and> c_depth (parent_data ''t'' 4 0 []) = 0
   \<and> depths_ok (Some 0) (parent_data ''t'' 4 0 [])
   \<and> c_replies (parent_data ''t'' 4 0 []) = []"
proof -
  note f = fetch_failing_replies_depth0
  from depth_discipline[of sub_failing_replies "''best''" 5 "Some 0" "[parent_data ''t'' 4 0 []]"] f
  have "(\<forall>top \<in> set [parent_data ''t'' 4 0 []]. c_depth top = 0 \<and> depths_ok (Some 0) top)
        \<and> (\<forall>top \<in> set [parent_data ''t'' 4 0 []]. c_replies top = [])"
    by blast
  with f show ?thesis by simp
qed

text \<open>
  Claim C7. When the iteration over the top-level collection \<open>cs\<close> does not raise, the
  builder returns the results for the first \<open>num_top_level\<close> valid objects of \<open>cs\<close>, so
  \<open>min num_top_level k\<close> nodes when \<open>k\<close> objects of \<open>cs\<close> are valid: an object without
  author or body and a placeholder yield no node and are not counted. The same holds for the
  children collected from a reply collection \<open>rs\<close>.
\<close>

theorem skipped_nodes_not_counted:
  assumes "comments submission (actual_praw_sort so) (comment_limit n) = map Inr cs"
  shows "fetch_comments_data submission so n d
           = Inr (take (nat n) (List.map_filter (\<lambda>c. process_comment c 0 d) (filter valid_raw cs)))
       \<and> length (take (nat n) (List.map_filter (\<lambda>c. process_comment c 0 d) (filter valid_raw cs)))
           = min (nat n) (length (filter valid_raw cs))
       \<and> process_replies (map Inr rs) depth d []
           = List.map_filter (\<lambda>c. process_comment c (depth + 1) d) (filter valid_raw rs)
       \<and> length (process_replies (map Inr rs) depth d []) = length (filter valid_raw rs)
       \<and> (process_comment c depth d = None \<longleftrightarrow> \<not> valid_raw c)"
proof -
  have "length (List.map_filter (\<lambda>c. process_comment c 0 d) (filter valid_raw cs))
          = length (filter valid_raw cs)"
    by (simp add: length_map_filter_valid)
  then show ?thesis
    using fetch_comments_data_yield[OF assms, of d]
    by (simp add: map_filter_valid process_replies_yield length_map_filter_valid
          process_comment_None min.commute)
qed

text \<open>
  The theorem at a source with five valid comments and one placeholder and
  \<open>num_top_level = 2\<close>: exactly two nodes.
\<close>

theorem skipped_nodes_not_counted_witness:
  "length (filter valid_raw five_and_placeholder) = 5
   \<and> length five_and_placeholder = 6
   \<and> (\<exists>r. fetch_comments_data sub_five_and_placeholder ''best'' 2 (Some 1) = Inr r \<and> length r = 2)"
proof -
  have five: "length (filter valid_raw five_and_placeholder) = 5"
    by (simp add: five_and_placeholder_def raw_leaf_def)
  have c: "comments sub_five_and_placeholder (actual_praw_sort ''best'') (comment_limit 2)
             = map Inr five_and_placeholder"
    by (simp add: sub_five_and_placeholder_def)
  from skipped_nodes_not_counted[OF c, of "Some 1"] five
  have "\<exists>r. fetch_comments_data sub_five_and_placeholder ''best'' 2 (Some 1) = Inr r \<and> length r = 2"
    by simp
  with five show ?thesis by (simp add: five_and_placeholder_def)
qed

text \<open>
  Claim C8. When the expansion of a comment's replies raises after the objects \<open>pre\<close>,
  the comment is returned all the same, with the children collected from \<open>pre\<close>; what
  comes behind the failure is not looked at. A valid comment always yields a node, and a
  fetch whose top-level iteration does not raise returns a list, whatever the reply
  collections inside do.
\<close>

theorem reply_failure_contained:
  "process_comment (Comment i (Some a) (Some b) cr sc sub st par perm
                      (Some (map Inr pre @ Inl e # post))) depth md
     = Some (CommentData i a b cr sc sub st par (''https://www.reddit.com'' @ perm) depth
               (if (case md of None \<Rightarrow> False | Some m \<Rightarrow> m \<le> depth) then []
                else List.map_filter (\<lambda>c. process_comment c (depth + 1) md) pre))
   \<and> (valid_raw c \<longrightarrow> (\<exists>node. process_comment c depth md = Some node))
   \<and> (comments submission (actual_praw_sort so) (comment_limit n) = map Inr cs \<longrightarrow>
        (\<exists>r. fetch_comments_data submission so n md = Inr r))"
proof -
  have "valid_raw c \<longrightarrow> (\<exists>node. process_comment c depth md = Some node)"
    using process_comment_None[of c depth md] by auto
  moreover have "comments submission (actual_praw_sort so) (comment_limit n) = map Inr cs \<longrightarrow>
        (\<exists>r. fetch_comments_data submission so n md = Inr r)"
    using fetch_comments_data_yield[of submission so n cs md] by simp
  ultimately show ?thesis
    by (simp add: process_comment_eq process_replies_cut process_replies_yield)
qed

text \<open>
  The theorem at a comment whose reply collection yields a reply, a deleted reply, then
  raises: the comment is returned with the first reply as its only child.
\<close>

theorem reply_failure_contained_witness:
  "process_comment (raw_parent ''t'' 4 replies_failing) 0 None
     = Some (parent_data ''t'' 4 0 [parent_data ''r1'' 3 1 [leaf_data ''r1a'' 1 2]])
   \<and> (\<exists>r. fetch_comments_data sub_failing_replies ''best'' 5 None = Inr r)"
proof -
  have c: "comments sub_failing_replies (actual_praw_sort ''best'') (comment_limit 5)
             = map Inr [raw_parent ''t'' 4 replies_failing]"
    by (simp add: sub_failing_replies_def)
  have v: "valid_raw (raw_parent ''t'' 4 replies_failing)" by (simp add: raw_parent_def)
  note t = reply_failure_contained[of "''t''" "''bob''" "''parent''" 0 4 False False "''t3_post''"
      "''/c/t''" "[raw_parent ''r1'' 3 [Inr (raw_leaf ''r1a'' 1)], raw_deleted ''r2'']" exn_503
      "[Inr (raw_leaf ''r3'' 2)]" 0 None "raw_parent ''t'' 4 replies_failing"
      sub_failing_replies "''best''" 5 "[raw_parent ''t'' 4 replies_failing]"]
  from t c v have "\<exists>r. fetch_comments_data sub_failing_replies ''best'' 5 None = Inr r"
    by blast
  moreover from t have "process_comment (raw_parent ''t'' 4 replies_failing) 0 None
     = Some (parent_data ''t'' 4 0 [parent_data ''r1'' 3 1 [leaf_data ''r1a'' 1 2]])"
    by (simp add: replies_failing_def raw_parent_def raw_leaf_def raw_deleted_def parent_data_def
          leaf_data_def process_comment_eq)
  ultimately show ?thesis by simp
qed

text \<open>
  Claim C9. Every top-level node of the list \<open>fetch_comments_data\<close> returns stems from a
  comment object that the source yielded, and by the definition of \<open>stems_from\<close> so does
  every node below it. Hence every node at any depth of the returned list carries the id,
  the author and the body of a comment object of the source whose author is not
  \<^verbatim>\<open>None\<close> and that has a body; no node comes from a placeholder.
\<close>

theorem returned_nodes_stem_from_comments:
  assumes "fetch_comments_data submission so n d = Inr r"
  shows "(\<forall>top \<in> set r.
            \<exists>c \<in> set (yielded (comments submission (actual_praw_sort so) (comment_limit n))).
              valid_raw c \<and> stems_from top c)
       \<and> (\<forall>node \<in> set (concat (map all_nodes r)).
            \<exists>ob \<in> set (all_yielded_objects
                          (comments submission (actual_praw_sort so) (comment_limit n))).
              valid_raw ob \<and> rid ob = c_id node \<and> author ob = Some (c_author node)
              \<and> body ob = Some (c_body node))"
proof -
  let ?evs = "comments submission (actual_praw_sort so) (comment_limit n)"
  have tops: "\<exists>c \<in> set (yielded ?evs). valid_raw c \<and> stems_from top c" if "top \<in> set r" for top
  proof -
    from that fetch_comments_data_Inr[OF assms] obtain l
      where l: "top_level_loop ?evs n d [] 0 = Inr l" and "top \<in> set l"
      by auto
    with top_level_loop_members[OF l] obtain c
      where c: "c \<in> set (yielded ?evs)" and p: "process_comment c 0 d = Some top"
      by auto
    from p have "valid_raw c" by (rule process_comment_Some)
    moreover from p process_stems(1)[of c 0 d] have "stems_from top c" by simp
    ultimately show ?thesis using c by blast
  qed
  have nodes: "\<exists>ob \<in> set (all_yielded_objects ?evs).
              valid_raw ob \<and> rid ob = c_id node \<and> author ob = Some (c_author node)
              \<and> body ob = Some (c_body node)"
    if "node \<in> set (concat (map all_nodes r))" for node
  proof -
    from that obtain top where top: "top \<in> set r" "node \<in> set (all_nodes top)" by auto
    from tops[OF top(1)] obtain c where c: "c \<in> set (yielded ?evs)" "stems_from top c" by blast
    from stems_from_all_nodes[OF c(2)] top(2) obtain ob
      where ob: "ob \<in> set (all_objects c)"
        "valid_raw ob \<and> rid ob = c_id node \<and> author ob = Some (c_author node)
         \<and> body ob = Some (c_body node)"
      by blast
    from all_yielded_objects_mono[OF c(1)] ob(1) have "ob \<in> set (all_yielded_objects ?evs)"
      by auto
    with ob(2) show ?thesis by blast
  qed
  from tops nodes show ?thesis by blast
qed

text \<open>
  The theorem at the submission whose only top-level comment has a deleted reply and a
  failing reply collection.
\<close>

theorem returned_nodes_stem_from_comments_witness:
  "fetch_comments_data sub_failing_replies ''best'' 5 None
     = Inr [parent_data ''t'' 4 0 [parent_data ''r1'' 3 1 [leaf_data ''r1a'' 1 2]]]
   \<and> (\<exists>c \<in> set (yielded (comments sub_failing_replies (actual_praw_sort ''best'') (comment_limit 5))).
         valid_raw c
         \<and> stems_from (parent_data ''t'' 4 0 [parent_data ''r1'' 3 1 [leaf_data ''r1a'' 1 2]]) c)"
proof -
  note f = fetch_failing_replies
  from returned_nodes_stem_from_comments[OF f] f show ?thesis by simp
qed

section \<open>The media classifier\<close>

lemma dict_of_gets_JDict:
  "dict_of_gets (JDict kvs) ks = Inr (map (\<lambda>(k, k'). (k, dict_get kvs k')) ks)"
  by (induction ks) (auto simp: bindE_def dict_get_def)

text \<open>Rule 3 on a link with preview that ends in an image extension: one pending item.\<close>

lemma rule_preview_image_link:
  assumes "\<not> is_video s" and "\<not> is_self s" and "url s \<noteq> []"
    and "map_of p ''images'' = Some (JList (JDict img # imgs))"
    and "map_of img ''source'' = Some (JDict src)"
    and "domain s \<notin> {''i.redd.it'', ''i.imgur.com'', ''v.redd.it''}"
    and "url_has_image_extension s"
  shows "rule_preview s (JDict p) sm =
           Next (sm @ [[(''type'', JStr ''image_link''), (''url'', JStr (url s)),
                        (''width'', dict_get src ''width''), (''height'', dict_get src ''height''),
                        (''preview_url'', dict_get src ''url'')]])"
  using assms
  by (simp add: rule_preview_def source_image_def bindE_def attempt_def dict_of_gets_JDict
        dict_get_def)

lemma rules_1_to_3_image_link:
  assumes "gallery_metadata s = None"
    and "\<not> is_video s" and "\<not> is_self s" and "url s \<noteq> []"
    and "preview s = Some (JDict p)"
    and "map_of p ''images'' = Some (JList (JDict img # imgs))"
    and "map_of img ''source'' = Some (JDict src)"
    and "domain s \<notin> {''i.redd.it'', ''i.imgur.com'', ''v.redd.it''}"
    and "url_has_image_extension s"
  shows "rules_1_to_3 s [] =
           Next [[(''type'', JStr ''image_link''), (''url'', JStr (url s)),
                  (''width'', dict_get src ''width''), (''height'', dict_get src ''height''),
                  (''preview_url'', dict_get src ''url'')]]"
proof -
  from assms(6) have "p \<noteq> []" by auto
  with assms(5,6) have "preview_images s = Inr (Some (JDict p))"
    by (simp add: preview_images_def bindE_def)
  with assms(1,2) rule_preview_image_link[OF assms(2,3,4,6,7,8,9), of "[]"]
  show ?thesis
    by (simp add: rules_1_to_3_def video_media_def attempt_def)
qed

text \<open>Rule 4 on the oEmbed payload of a YouTube video: the item is appended and returned.\<close>

lemma rule_embed_youtube:
  assumes "secure_media s = Some (JDict sm)"
    and "map_of sm ''oembed'' = Some (JDict ob)"
    and "map_of ob ''type'' = Some (JStr ''video'')"
    and "map_of ob ''provider_name'' = Some (JStr ''YouTube'')"
  shows "rule_embed s acc =
           Return (acc @ [[(''type'', JStr ''youtube_video_embed''), (''url'', dict_get ob ''url''),
                           (''html_embed'', dict_get ob ''html''),
                           (''thumbnail_url'', dict_get ob ''thumbnail_url''),
                           (''title'', dict_get ob ''title''),
                           (''author_name'', dict_get ob ''author_name''),
                           (''provider_name'', dict_get ob ''provider_name'')]])"
proof -
  from assms(2) have "sm \<noteq> []" by auto
  with assms(1,2) have "oembed_of s = Inr (Some (JDict ob))"
    by (simp add: oembed_of_def bindE_def)
  with assms(3,4) show ?thesis
    by (simp add: rule_embed_def attempt_def and_also_def bindE_def dict_of_gets_JDict
          dict_get_def)
qed

lemma extract_image_link_then_embed:
  assumes "gallery_metadata s = None"
    and "\<not> is_video s" and "\<not> is_self s" and "url s \<noteq> []"
    and "preview s = Some (JDict p)"
    and "map_of p ''images'' = Some (JList (JDict img # imgs))"
    and "map_of img ''source'' = Some (JDict src)"
    and "domain s \<notin> {''i.redd.it'', ''i.imgur.com'', ''v.redd.it''}"
    and "url_has_image_extension s"
    and "secure_media s = Some (JDict sm)"
    and "map_of sm ''oembed'' = Some (JDict ob)"
    and "map_of ob ''type'' = Some (JStr ''video'')"
    and "map_of ob ''provider_name'' = Some (JStr ''YouTube'')"
  shows "extract_media_info s =
           [[(''type'', JStr ''image_link''), (''url'', JStr (url s)),
             (''width'', dict_get src ''width''), (''height'', dict_get src ''height''),
             (''preview_url'', dict_get src ''url'')],
            [(''type'', JStr ''youtube_video_embed''), (''url'', dict_get ob ''url''),
             (''html_embed'', dict_get ob ''html''),
             (''thumbnail_url'', dict_get ob ''thumbnail_url''),
             (''title'', dict_get ob ''title''),
             (''author_name'', dict_get ob ''author_name''),
             (''provider_name'', dict_get ob ''provider_name'')]]"
  using rules_1_to_3_image_link[OF assms(1-9)] rule_embed_youtube[OF assms(10-13)]
  by (simp add: extract_media_info_def extract_media_steps_def and_then_def)

text \<open>The example post meets the conditions of both rules.\<close>

lemma sub_image_and_youtube_facts:
  "gallery_metadata sub_image_and_youtube = None"
  "\<not> is_video sub_image_and_youtube"
  "\<not> is_self sub_image_and_youtube"
  "url sub_image_and_youtube \<noteq> []"
  "preview sub_image_and_youtube =
     Some (JDict [(''images'', JList [JDict [(''source'',
             JDict [(''url'', JStr ''https://preview.example/p.jpg''),
                    (''width'', JNum 640), (''height'', JNum 480)])]])])"
  "map_of [(''images'', JList [JDict [(''source'',
             JDict [(''url'', JStr ''https://preview.example/p.jpg''),
                    (''width'', JNum 640), (''height'', JNum 480)])]])] ''images''
     = Some (JList (JDict [(''source'',
             JDict [(''url'', JStr ''https://preview.example/p.jpg''),
                    (''width'', JNum 640), (''height'', JNum 480)])] # []))"
  "map_of [(''source'', JDict [(''url'', JStr ''https://preview.example/p.jpg''),
                    (''width'', JNum 640), (''height'', JNum 480)])] ''source''
     = Some (JDict [(''url'', JStr ''https://preview.example/p.jpg''),
                    (''width'', JNum 640), (''height'', JNum 480)])"
  "domain sub_image_and_youtube \<notin> {''i.redd.it'', ''i.imgur.com'', ''v.redd.it''}"
  "url_has_image_extension sub_image_and_youtube"
  "secure_media sub_image_and_youtube =
     Some (JDict [(''type'', JStr ''youtube.com''),
                  (''oembed'', JDict [(''type'', JStr ''video''),
                                      (''provider_name'', JStr ''YouTube''),
                                      (''title'', JStr ''A video''),
                                      (''html'', JStr ''<iframe></iframe>'')])])"
  "map_of [(''type'', JStr ''youtube.com''),
           (''oembed'', JDict [(''type'', JStr ''video''),
                               (''provider_name'', JStr ''YouTube''),
                               (''title'', JStr ''A video''),
                               (''html'', JStr ''<iframe></iframe>'')])] ''oembed''
     = Some (JDict [(''type'', JStr ''video''), (''provider_name'', JStr ''YouTube''),
                    (''title'', JStr ''A video''), (''html'', JStr ''<iframe></iframe>'')])"
  "map_of [(''type'', JStr ''video''), (''provider_name'', JStr ''YouTube''),
           (''title'', JStr ''A video''), (''html'', JStr ''<iframe></iframe>'')] ''type''
     = Some (JStr ''video'')"
  "map_of [(''type'', JStr ''video''), (''provider_name'', JStr ''YouTube''),
           (''title'', JStr ''A video''), (''html'', JStr ''<iframe></iframe>'')] ''provider_name''
     = Some (JStr ''YouTube'')"
  by (simp_all add: sub_image_and_youtube_def gallery_metadata_def url_has_image_extension_def
        image_extensions_def endswith_def lower_def lower_char_def)

lemma info_image_and_youtube:
  "extract_media_info sub_image_and_youtube =
     [[(''type'', JStr ''image_link''), (''url'', JStr ''https://example.com/Cover.JPG''),
       (''width'', JNum 640), (''height'', JNum 480),
       (''preview_url'', JStr ''https://preview.example/p.jpg'')],
      [(''type'', JStr ''youtube_video_embed''), (''url'', JNone),
       (''html_embed'', JStr ''<iframe></iframe>''), (''thumbnail_url'', JNone),
       (''title'', JStr ''A video''), (''author_name'', JNone),
       (''provider_name'', JStr ''YouTube'')]]"
  using extract_image_link_then_embed[OF sub_image_and_youtube_facts]
  by (simp add: dict_get_def) (simp add: sub_image_and_youtube_def)

text \<open>
  Claim C2, as amended. For a post that is not a gallery with metadata, is a non-self,
  non-video link ending in a known image extension on a host other than i.redd.it,
  i.imgur.com and v.redd.it, has a preview image with a source, and carries the oEmbed
  payload of a YouTube video, the classifier returns two items: the \<open>image_link\<close> first,
  the \<open>youtube_video_embed\<close> second. The embed does not replace the pending image link.
\<close>

theorem image_link_and_embed_coexist:
  assumes "gallery_metadata s = None"
    and "\<not> is_video s" and "\<not> is_self s" and "url s \<noteq> []"
    and "preview s = Some (JDict p)"
    and "map_of p ''images'' = Some (JList (JDict img # imgs))"
    and "map_of img ''source'' = Some (JDict src)"
    and "domain s \<notin> {''i.redd.it'', ''i.imgur.com'', ''v.redd.it''}"
    and "url_has_image_extension s"
    and "secure_media s = Some (JDict sm)"
    and "map_of sm ''oembed'' = Some (JDict ob)"
    and "map_of ob ''type'' = Some (JStr ''video'')"
    and "map_of ob ''provider_name'' = Some (JStr ''YouTube'')"
  shows "extract_media_info s =
           [[(''type'', JStr ''image_link''), (''url'', JStr (url s)),
             (''width'', dict_get src ''width''), (''height'', dict_get src ''height''),
             (''preview_url'', dict_get src ''url'')],
            [(''type'', JStr ''youtube_video_embed''), (''url'', dict_get ob ''url''),
             (''html_embed'', dict_get ob ''html''),
             (''thumbnail_url'', dict_get ob ''thumbnail_url''),
             (''title'', dict_get ob ''title''),
             (''author_name'', dict_get ob ''author_name''),
             (''provider_name'', dict_get ob ''provider_name'')]]"
  using assms by (rule extract_image_link_then_embed)

text \<open>The theorem at the example post that has both.\<close>

theorem image_link_and_embed_coexist_witness:
  "extract_media_info sub_image_and_youtube =
     [[(''type'', JStr ''image_link''), (''url'', JStr ''https://example.com/Cover.JPG''),
       (''width'', JNum 640), (''height'', JNum 480),
       (''preview_url'', JStr ''https://preview.example/p.jpg'')],
      [(''type'', JStr ''youtube_video_embed''), (''url'', JNone),
       (''html_embed'', JStr ''<iframe></iframe>''), (''thumbnail_url'', JNone),
       (''title'', JStr ''A video''), (''author_name'', JNone),
       (''provider_name'', JStr ''YouTube'')]]"
  using image_link_and_embed_coexist[OF sub_image_and_youtube_facts]
  by (simp add: dict_get_def) (simp add: sub_image_and_youtube_def)

text \<open>
  Claim C2 as stated fails: on the example post the classifier returns the
  \<open>image_link\<close> item and the \<open>youtube_video_embed\<close> item, not the embed alone.
\<close>

theorem image_link_dropped_counterexample:
  "extract_media_info sub_image_and_youtube \<noteq>
     [[(''type'', JStr ''youtube_video_embed''), (''url'', JNone),
       (''html_embed'', JStr ''<iframe></iframe>''), (''thumbnail_url'', JNone),
       (''title'', JStr ''A video''), (''author_name'', JNone),
       (''provider_name'', JStr ''YouTube'')]]
   \<and> length (extract_media_info sub_image_and_youtube) = 2
   \<and> map_of (hd (extract_media_info sub_image_and_youtube)) ''type'' = Some (JStr ''image_link'')"
  by (simp add: info_image_and_youtube)

text \<open>
  Claim C5 fails on the code. On a gallery whose metadata has a well-formed image entry
  followed by an entry that is \<^verbatim>\<open>null\<close>, the loop appends the first item and then raises
  an \<open>AttributeError\<close>; the exception is caught, and the classifier returns the list with
  the first item in it, not the empty list.
\<close>

theorem classification_error_keeps_items:
  "extract_media_steps sub_gallery_malformed =
     Raised AttributeError
       [[(''type'', JStr ''image_gallery_item''), (''id'', JStr ''a1''),
         (''url'', JStr ''https://i.redd.it/a1.jpg''), (''width'', JNum 100),
         (''height'', JNum 50), (''mimetype'', JStr ''image/jpg'')]]
   \<and> extract_media_info sub_gallery_malformed =
       [[(''type'', JStr ''image_gallery_item''), (''id'', JStr ''a1''),
         (''url'', JStr ''https://i.redd.it/a1.jpg''), (''width'', JNum 100),
         (''height'', JNum 50), (''mimetype'', JStr ''image/jpg'')]]
   \<and> extract_media_info sub_gallery_malformed \<noteq> []"
proof -
  have g: "gallery_metadata sub_gallery_malformed = media_metadata sub_gallery_malformed"
    by (simp add: gallery_metadata_def sub_gallery_malformed_def)
  have "rules_1_to_3 sub_gallery_malformed [] =
     Raised AttributeError
       [[(''type'', JStr ''image_gallery_item''), (''id'', JStr ''a1''),
         (''url'', JStr ''https://i.redd.it/a1.jpg''), (''width'', JNum 100),
         (''height'', JNum 50), (''mimetype'', JStr ''image/jpg'')]]"
    unfolding rules_1_to_3_def g
    by (simp add: sub_gallery_malformed_def rule_gallery_def attempt_def gallery_item_def
          and_also_def bindE_def and_then_def)
  then show ?thesis
    by (simp add: extract_media_info_def extract_media_steps_def and_then_def)
qed

end
